theory Spec2Isabelle
  imports
    Main
    "HOL-Library.Word"
    "HOL-Library.List_Lexorder"
    "HOL-Library.Product_Lexorder"
    "HOL-Library.Multiset"
    "HOL-Library.Sublist"
begin

section \<open>Python values\<close>

text \<open>
  A Python \<open>str\<close> is a sequence of Unicode code points and is modelled as a list of
  naturals; \<open>bytes\<close> is a list of naturals below 256. \<open>ustr\<close> reads an ASCII literal
  as such a string. Exceptions are values: \<open>is_Exception\<close> tells the classes that derive
  from \<open>Exception\<close> (what \<open>except Exception\<close> catches) from \<open>KeyboardInterrupt\<close> and
  \<open>SystemExit\<close>, which derive from \<open>BaseException\<close> only.
\<close>

type_synonym pystr = "nat list"

type_synonym pybytes = "nat list"

definition ustr :: "string \<Rightarrow> pystr" where
  "ustr s = map of_char s"

datatype py_error =
    ValueError
  | UnicodeEncodeError
  | OverflowError
  | OSError
  | RuntimeError
  | AttributeError
  | KeyboardInterrupt
  | SystemExit

fun is_Exception :: "py_error \<Rightarrow> bool" where
  "is_Exception KeyboardInterrupt = False"
| "is_Exception SystemExit = False"
| "is_Exception _ = True"

section \<open>Python strings\<close>

text \<open>
  What the standard library decides and the repository does not: Unicode's NFKC
  normalisation, whether a bracketed host is an IPv6 address
  (\<open>ipaddress.ip_address\<close>), and which code points from 128 on are alphanumeric
  (\<open>str.isalnum\<close>, the \<open>\w\<close> of a Unicode pattern). They are parameters of the
  model; \<open>ascii_lib\<close> is the instance for text that is ASCII and has no bracketed host,
  where none of them is consulted.
\<close>

record pylib =
  nfkc :: "pystr \<Rightarrow> pystr"
  is_ipv6_address :: "pystr \<Rightarrow> bool"
  is_alnum :: "nat \<Rightarrow> bool"

definition ascii_lib :: pylib where
  "ascii_lib = \<lparr>nfkc = (\<lambda>s. s), is_ipv6_address = (\<lambda>_. False), is_alnum = (\<lambda>_. False)\<rparr>"

text \<open>
  The code points for which \<open>str.isspace()\<close> holds: what \<open>str.strip()\<close> removes and
  what \<open>\s\<close> matches.
\<close>

definition is_space :: "nat \<Rightarrow> bool" where
  "is_space c =
     (c \<in> set [9, 10, 11, 12, 13, 28, 29, 30, 31, 32, 133, 160, 5760, 8232, 8233, 8239, 8287, 12288]
      \<or> (8192 \<le> c \<and> c \<le> 8202))"

definition strip :: "pystr \<Rightarrow> pystr" where
  "strip s = rev (dropWhile is_space (rev (dropWhile is_space s)))"

definition is_ascii_alpha :: "nat \<Rightarrow> bool" where
  "is_ascii_alpha c = ((65 \<le> c \<and> c \<le> 90) \<or> (97 \<le> c \<and> c \<le> 122))"

definition is_digit :: "nat \<Rightarrow> bool" where
  "is_digit c = (48 \<le> c \<and> c \<le> 57)"

definition is_hexdig :: "nat \<Rightarrow> bool" where
  "is_hexdig c = (is_digit c \<or> (65 \<le> c \<and> c \<le> 70) \<or> (97 \<le> c \<and> c \<le> 102))"

definition hexval :: "nat \<Rightarrow> nat" where
  "hexval c = (if is_digit c then c - 48 else if c \<le> 70 then c - 55 else c - 87)"

definition hexdigit_upper :: "nat \<Rightarrow> nat" where
  "hexdigit_upper n = (if n < 10 then 48 + n else 55 + n)"

text \<open>
  \<open>str.lower()\<close> on the ASCII letters. The repository lowers a string only to compare it
  with ASCII words none of which has a \<open>k\<close>; no code point from 128 on lowers to ASCII
  text but U+212A, which gives \<open>k\<close>, so these comparisons come out as with the full
  Unicode mapping.
\<close>

definition lower :: "pystr \<Rightarrow> pystr" where
  "lower s = map (\<lambda>c. if 65 \<le> c \<and> c \<le> 90 then c + 32 else c) s"

text \<open>\<open>s.split(sep)\<close> for a separator of one character, and \<open>sep.join(xs)\<close>.\<close>

fun split :: "nat \<Rightarrow> pystr \<Rightarrow> pystr list" where
  "split sep [] = [[]]"
| "split sep (c # cs) =
     (if c = sep then [] # split sep cs
      else (case split sep cs of [] \<Rightarrow> [[c]] | x # xs \<Rightarrow> (c # x) # xs))"

fun join :: "pystr \<Rightarrow> pystr list \<Rightarrow> pystr" where
  "join sep [] = []"
| "join sep [x] = x"
| "join sep (x # y # ys) = x @ sep @ join sep (y # ys)"

text \<open>
  \<open>s.partition(sep)\<close> and \<open>s.split(sep, 1)\<close> cut at the first separator: what is before
  it and what is after it. \<open>s.rsplit(sep, 1)\<close> cuts at the last one.
\<close>

definition before_first :: "nat \<Rightarrow> pystr \<Rightarrow> pystr" where
  "before_first sep s = takeWhile (\<lambda>c. c \<noteq> sep) s"

definition after_first :: "nat \<Rightarrow> pystr \<Rightarrow> pystr" where
  "after_first sep s = drop 1 (dropWhile (\<lambda>c. c \<noteq> sep) s)"

definition before_last :: "nat \<Rightarrow> pystr \<Rightarrow> pystr" where
  "before_last sep s = rev (after_first sep (rev s))"

definition after_last :: "nat \<Rightarrow> pystr \<Rightarrow> pystr" where
  "after_last sep s = rev (before_first sep (rev s))"

text \<open>\<open>sub in s\<close> for strings.\<close>

fun contains :: "pystr \<Rightarrow> pystr \<Rightarrow> bool" where
  "contains sub [] = (sub = [])"
| "contains sub (c # cs) = (prefix sub (c # cs) \<or> contains sub cs)"

text \<open>
  \<open>s[:k]\<close> for an integer \<open>k\<close>: a negative \<open>k\<close> counts from the end of the string.
\<close>

definition slice_to :: "pystr \<Rightarrow> int \<Rightarrow> pystr" where
  "slice_to s k = (if 0 \<le> k then take (nat k) s else take (nat (int (length s) + k)) s)"

text \<open>
  \<open>re.sub(r"[...]+", repl, s)\<close> for a class of characters: every maximal run of
  characters of the class is replaced by \<open>repl\<close>.
\<close>

function sub_runs :: "(nat \<Rightarrow> bool) \<Rightarrow> pystr \<Rightarrow> pystr \<Rightarrow> pystr" where
  "sub_runs cls repl [] = []"
| "sub_runs cls repl (c # cs) =
     (if cls c then repl @ sub_runs cls repl (dropWhile cls cs) else c # sub_runs cls repl cs)"
  by pat_completeness auto
termination
  by (relation "measure (\<lambda>(cls, repl, s). length s)")
     (auto simp add: length_dropWhile_le less_Suc_eq_le)

subsection \<open>UTF-8\<close>

text \<open>
  \<open>str.encode("utf-8")\<close> with the strict error handler: a surrogate cannot be
  encoded.
\<close>

definition utf8_encode_char :: "nat \<Rightarrow> pybytes option" where
  "utf8_encode_char c =
     (if c < 128 then Some [c]
      else if c < 2048 then Some [192 + c div 64, 128 + c mod 64]
      else if 55296 \<le> c \<and> c \<le> 57343 then None
      else if c < 65536 then Some [224 + c div 4096, 128 + (c div 64) mod 64, 128 + c mod 64]
      else if c < 1114112 then
        Some [240 + c div 262144, 128 + (c div 4096) mod 64, 128 + (c div 64) mod 64, 128 + c mod 64]
      else None)"

fun utf8_encode :: "pystr \<Rightarrow> py_error + pybytes" where
  "utf8_encode [] = Inr []"
| "utf8_encode (c # cs) =
     (case utf8_encode_char c of
        None \<Rightarrow> Inl UnicodeEncodeError
      | Some bs \<Rightarrow> (case utf8_encode cs of Inl e \<Rightarrow> Inl e | Inr rest \<Rightarrow> Inr (bs @ rest)))"

text \<open>
  \<open>bytes.decode("utf-8", "replace")\<close> as CPython decodes: an invalid start byte, and a
  lead byte with the valid part of its sequence when the next byte cannot continue it or
  the data end, become one U+FFFD, and decoding resumes behind them.
\<close>

definition is_cont :: "nat \<Rightarrow> bool" where
  "is_cont b = (128 \<le> b \<and> b < 192)"

fun utf8_decode :: "pybytes \<Rightarrow> pystr" where
  "utf8_decode [] = []"
| "utf8_decode (b # bs) =
     (if b < 128 then b # utf8_decode bs
      else if b < 194 then 65533 # utf8_decode bs
      else if b < 224 then
        (case bs of
           [] \<Rightarrow> [65533]
         | b2 # r2 \<Rightarrow>
             if \<not> is_cont b2 then 65533 # utf8_decode bs
             else ((b - 192) * 64 + (b2 - 128)) # utf8_decode r2)
      else if b < 240 then
        (case bs of
           [] \<Rightarrow> [65533]
         | b2 # r2 \<Rightarrow>
             if \<not> is_cont b2 \<or> (if b2 < 160 then b = 224 else b = 237)
             then 65533 # utf8_decode bs
             else (case r2 of
                     [] \<Rightarrow> [65533]
                   | b3 # r3 \<Rightarrow>
                       if \<not> is_cont b3 then 65533 # utf8_decode r2
                       else ((b - 224) * 4096 + (b2 - 128) * 64 + (b3 - 128)) # utf8_decode r3))
      else if b < 245 then
        (case bs of
           [] \<Rightarrow> [65533]
         | b2 # r2 \<Rightarrow>
             if \<not> is_cont b2 \<or> (if b2 < 144 then b = 240 else b = 244)
             then 65533 # utf8_decode bs
             else (case r2 of
                     [] \<Rightarrow> [65533]
                   | b3 # r3 \<Rightarrow>
                       if \<not> is_cont b3 then 65533 # utf8_decode r2
                       else (case r3 of
                               [] \<Rightarrow> [65533]
                             | b4 # r4 \<Rightarrow>
                                 if \<not> is_cont b4 then 65533 # utf8_decode r3
                                 else ((b - 240) * 262144 + (b2 - 128) * 4096
                                        + (b3 - 128) * 64 + (b4 - 128)) # utf8_decode r4)))
      else 65533 # utf8_decode bs)"

section \<open>urllib.parse\<close>

text \<open>
  The functions of \<open>urllib.parse\<close> that \<open>storage/local.py\<close> calls, after CPython 3.11.
\<close>

subsection \<open>Percent-encoding\<close>

text \<open>
  \<open>unquote_to_bytes\<close>: a \<open>%\<close> followed by two hexadecimal digits is the byte they
  write; any other \<open>%\<close> stays.
\<close>

fun unquote_to_bytes :: "pystr \<Rightarrow> pybytes" where
  "unquote_to_bytes (c # h1 # h2 # rest) =
     (if c = 37 \<and> is_hexdig h1 \<and> is_hexdig h2
      then (hexval h1 * 16 + hexval h2) # unquote_to_bytes rest
      else c # unquote_to_bytes (h1 # h2 # rest))"
| "unquote_to_bytes (c # cs) = c # unquote_to_bytes cs"
| "unquote_to_bytes [] = []"

text \<open>
  \<open>unquote\<close>: a string without \<open>%\<close> is returned as it is; otherwise every maximal run
  of ASCII characters is unquoted to bytes and decoded, and the other characters stay.
\<close>

function unquote_runs :: "pystr \<Rightarrow> pystr" where
  "unquote_runs [] = []"
| "unquote_runs (c # cs) =
     (if c < 128
      then utf8_decode (unquote_to_bytes (takeWhile (\<lambda>x. x < 128) (c # cs)))
             @ unquote_runs (dropWhile (\<lambda>x. x < 128) cs)
      else c # unquote_runs cs)"
  by pat_completeness auto
termination
  by (relation "measure length") (auto simp add: length_dropWhile_le less_Suc_eq_le)

definition unquote :: "pystr \<Rightarrow> pystr" where
  "unquote s = (if 37 \<notin> set s then s else unquote_runs s)"

definition unquote_plus :: "pystr \<Rightarrow> pystr" where
  "unquote_plus s = unquote (map (\<lambda>c. if c = 43 then 32 else c) s)"

text \<open>
  \<open>quote_from_bytes\<close>: the letters, the digits and \<open>_.-~\<close> are always safe, every
  other byte is written \<open>%XX\<close>. \<open>quote_plus\<close> (with the empty \<open>safe\<close> of
  \<open>urlencode\<close>) writes a space as \<open>+\<close>.
\<close>

definition always_safe :: "nat \<Rightarrow> bool" where
  "always_safe b = (is_ascii_alpha b \<or> is_digit b \<or> b \<in> set [95, 46, 45, 126])"

definition quote_byte :: "pystr \<Rightarrow> nat \<Rightarrow> pystr" where
  "quote_byte safe b =
     (if always_safe b \<or> (b < 128 \<and> b \<in> set safe) then [b]
      else [37, hexdigit_upper (b div 16), hexdigit_upper (b mod 16)])"

definition quote_from_bytes :: "pybytes \<Rightarrow> pystr \<Rightarrow> pystr" where
  "quote_from_bytes bs safe = concat (map (quote_byte safe) bs)"

definition quote :: "pystr \<Rightarrow> pystr \<Rightarrow> py_error + pystr" where
  "quote s safe =
     (if s = [] then Inr s
      else case utf8_encode s of Inl e \<Rightarrow> Inl e | Inr bs \<Rightarrow> Inr (quote_from_bytes bs safe))"

definition quote_plus :: "pystr \<Rightarrow> py_error + pystr" where
  "quote_plus s =
     (if 32 \<notin> set s then quote s []
      else case quote s [32] of
             Inl e \<Rightarrow> Inl e
           | Inr q \<Rightarrow> Inr (map (\<lambda>c. if c = 32 then 43 else c) q))"

subsection \<open>Query strings\<close>

text \<open>
  \<open>parse_qsl(qs, keep_blank_values=True)\<close>: the fields between the \<open>&\<close>, empty fields
  skipped, each cut at its first \<open>=\<close>.
\<close>

definition parse_field :: "pystr \<Rightarrow> pystr \<times> pystr" where
  "parse_field nv = (unquote_plus (before_first 61 nv), unquote_plus (after_first 61 nv))"

definition parse_qsl :: "pystr \<Rightarrow> (pystr \<times> pystr) list" where
  "parse_qsl qs = (if qs = [] then [] else map parse_field (filter (\<lambda>nv. nv \<noteq> []) (split 38 qs)))"

text \<open>\<open>urlencode(query, doseq=True)\<close> for a list of pairs of strings.\<close>

fun encode_fields :: "(pystr \<times> pystr) list \<Rightarrow> py_error + pystr list" where
  "encode_fields [] = Inr []"
| "encode_fields ((k, v) # rest) =
     (case quote_plus k of
        Inl e \<Rightarrow> Inl e
      | Inr k' \<Rightarrow>
          (case quote_plus v of
             Inl e \<Rightarrow> Inl e
           | Inr v' \<Rightarrow>
               (case encode_fields rest of
                  Inl e \<Rightarrow> Inl e
                | Inr l \<Rightarrow> Inr ((k' @ [61] @ v') # l))))"

definition urlencode :: "(pystr \<times> pystr) list \<Rightarrow> py_error + pystr" where
  "urlencode query = (case encode_fields query of Inl e \<Rightarrow> Inl e | Inr l \<Rightarrow> Inr (join [38] l))"

subsection \<open>Splitting and joining a URL\<close>

record SplitResult =
  scheme :: pystr
  netloc :: pystr
  path :: pystr
  query :: pystr
  fragment :: pystr

definition scheme_chars :: "nat \<Rightarrow> bool" where
  "scheme_chars c = (is_ascii_alpha c \<or> is_digit c \<or> c \<in> set [43, 45, 46])"

definition uses_netloc :: "pystr list" where
  "uses_netloc =
     [[], ustr ''ftp'', ustr ''http'', ustr ''gopher'', ustr ''nntp'', ustr ''telnet'',
      ustr ''imap'', ustr ''wais'', ustr ''file'', ustr ''mms'', ustr ''https'', ustr ''shttp'',
      ustr ''snews'', ustr ''prospero'', ustr ''rtsp'', ustr ''rtsps'', ustr ''rtspu'',
      ustr ''rsync'', ustr ''svn'', ustr ''svn+ssh'', ustr ''sftp'', ustr ''nfs'', ustr ''git'',
      ustr ''git+ssh'', ustr ''ws'', ustr ''wss'']"

text \<open>\<open>_splitnetloc(url, 2)\<close>: the domain runs to the first of \<open>/?#\<close>.\<close>

definition netloc_delim :: "nat \<Rightarrow> bool" where
  "netloc_delim c = (c \<in> set [47, 63, 35])"

definition splitnetloc :: "pystr \<Rightarrow> pystr \<times> pystr" where
  "splitnetloc url =
     (takeWhile (\<lambda>c. \<not> netloc_delim c) (drop 2 url), dropWhile (\<lambda>c. \<not> netloc_delim c) (drop 2 url))"

text \<open>
  \<open>_check_bracketed_host\<close>: an IPvFuture literal \<open>v<hex>.<text>\<close> or an IPv6 address.
\<close>

definition check_bracketed_host :: "pylib \<Rightarrow> pystr \<Rightarrow> bool" where
  "check_bracketed_host L h =
     (if prefix [118] h
      then (let hx = takeWhile is_hexdig (drop 1 h); r = dropWhile is_hexdig (drop 1 h)
            in hx \<noteq> [] \<and> prefix [46] r \<and> drop 1 r \<noteq> [] \<and> 10 \<notin> set r)
      else is_ipv6_address L h)"

text \<open>
  \<open>_checknetloc\<close>: a netloc that is not ASCII must not gain one of \<open>/?#@:\<close> under NFKC
  normalisation.
\<close>

definition checknetloc :: "pylib \<Rightarrow> pystr \<Rightarrow> bool" where
  "checknetloc L nl =
     (if nl = [] \<or> list_all (\<lambda>c. c < 128) nl then True
      else (let n = filter (\<lambda>c. c \<notin> set [64, 58, 35, 63]) nl; n2 = nfkc L n
            in n = n2 \<or> list_all (\<lambda>c. c \<notin> set n2) [47, 63, 35, 64, 58]))"

definition netloc_ok :: "pylib \<Rightarrow> pystr \<Rightarrow> bool" where
  "netloc_ok L nl =
     (\<not> ((91 \<in> set nl \<and> 93 \<notin> set nl) \<or> (93 \<in> set nl \<and> 91 \<notin> set nl)) \<and>
      (if 91 \<in> set nl \<and> 93 \<in> set nl
       then check_bracketed_host L (before_first 93 (after_first 91 nl)) else True))"

definition urlsplit :: "pylib \<Rightarrow> pystr \<Rightarrow> py_error + SplitResult" where
  "urlsplit L url0 =
     (let url1 = dropWhile (\<lambda>c. c \<le> 32) url0;
          url2 = filter (\<lambda>c. c \<notin> set [9, 13, 10]) url1;
          pre = before_first 58 url2;
          has_scheme = (58 \<in> set url2 \<and> (case pre of [] \<Rightarrow> False | c # _ \<Rightarrow> is_ascii_alpha c)
                          \<and> list_all scheme_chars pre);
          sch = (if has_scheme then lower pre else []);
          url3 = (if has_scheme then after_first 58 url2 else url2);
          has_netloc = (take 2 url3 = [47, 47]);
          nl = (if has_netloc then fst (splitnetloc url3) else []);
          url4 = (if has_netloc then snd (splitnetloc url3) else url3);
          frag = (if 35 \<in> set url4 then after_first 35 url4 else []);
          url5 = (if 35 \<in> set url4 then before_first 35 url4 else url4);
          qry = (if 63 \<in> set url5 then after_first 63 url5 else []);
          url6 = (if 63 \<in> set url5 then before_first 63 url5 else url5)
      in if (if has_netloc then netloc_ok L nl else True) \<and> checknetloc L nl
         then Inr \<lparr>scheme = sch, netloc = nl, path = url6, query = qry, fragment = frag\<rparr>
         else Inl ValueError)"

definition urlunsplit :: "pystr \<Rightarrow> pystr \<Rightarrow> pystr \<Rightarrow> pystr \<Rightarrow> pystr \<Rightarrow> pystr" where
  "urlunsplit sch nl url qry frag =
     (let url1 = (if nl \<noteq> [] \<or> (sch \<noteq> [] \<and> sch \<in> set uses_netloc) \<or> take 2 url = [47, 47]
                  then [47, 47] @ nl @ (if url \<noteq> [] \<and> take 1 url \<noteq> [47] then 47 # url else url)
                  else url);
          url2 = (if sch \<noteq> [] then sch @ [58] @ url1 else url1);
          url3 = (if qry \<noteq> [] then url2 @ [63] @ qry else url2)
      in if frag \<noteq> [] then url3 @ [35] @ frag else url3)"

section \<open>hashlib.sha1\<close>

text \<open>
  SHA-1 (FIPS 180-4) on a list of bytes: the message is padded to whole blocks of 64
  bytes, every block of sixteen big-endian words is expanded to eighty and run through
  the eighty rounds, and \<open>hexdigest\<close> writes the five words of the state as forty
  lower-case hexadecimal digits.
\<close>

unbundle bit_operations_syntax

fun be_bytes :: "nat \<Rightarrow> nat \<Rightarrow> pybytes" where
  "be_bytes 0 x = []"
| "be_bytes (Suc n) x = be_bytes n (x div 256) @ [x mod 256]"

definition sha1_pad :: "pybytes \<Rightarrow> pybytes" where
  "sha1_pad m = m @ [128] @ replicate ((119 - length m mod 64) mod 64) 0 @ be_bytes 8 (8 * length m)"

function chunks :: "nat \<Rightarrow> 'a list \<Rightarrow> 'a list list" where
  "chunks n xs = (if n = 0 \<or> xs = [] then [] else take n xs # chunks n (drop n xs))"
  by pat_completeness auto
termination
  by (relation "measure (\<lambda>(n, xs). length xs)") auto

definition be_word :: "pybytes \<Rightarrow> 32 word" where
  "be_word bs = of_nat (foldl (\<lambda>acc b. acc * 256 + b) 0 bs)"

fun sha1_expand :: "nat \<Rightarrow> 32 word list \<Rightarrow> 32 word list" where
  "sha1_expand 0 ws = ws"
| "sha1_expand (Suc k) ws =
     (let n = length ws in
      sha1_expand k
        (ws @ [word_rotl 1 (ws ! (n - 3) XOR ws ! (n - 8) XOR ws ! (n - 14) XOR ws ! (n - 16))]))"

definition sha1_f :: "nat \<Rightarrow> 32 word \<Rightarrow> 32 word \<Rightarrow> 32 word \<Rightarrow> 32 word" where
  "sha1_f t b c d =
     (if t < 20 then (b AND c) OR (NOT b AND d)
      else if t < 40 then b XOR c XOR d
      else if t < 60 then (b AND c) OR (b AND d) OR (c AND d)
      else b XOR c XOR d)"

definition sha1_k :: "nat \<Rightarrow> 32 word" where
  "sha1_k t =
     (if t < 20 then 0x5A827999 else if t < 40 then 0x6ED9EBA1
      else if t < 60 then 0x8F1BBCDC else 0xCA62C1D6)"

record sha1_state =
  sa :: "32 word"
  sb :: "32 word"
  sc :: "32 word"
  sd :: "32 word"
  se :: "32 word"

definition sha1_round :: "sha1_state \<Rightarrow> nat \<times> 32 word \<Rightarrow> sha1_state" where
  "sha1_round s tw =
     \<lparr>sa = word_rotl 5 (sa s) + sha1_f (fst tw) (sb s) (sc s) (sd s) + se s + sha1_k (fst tw) + snd tw,
      sb = sa s, sc = word_rotl 30 (sb s), sd = sc s, se = sd s\<rparr>"

definition sha1_block :: "sha1_state \<Rightarrow> pybytes \<Rightarrow> sha1_state" where
  "sha1_block h block =
     (let ws = sha1_expand 64 (map be_word (chunks 4 block));
          s = foldl sha1_round h (zip [0..<80] ws)
      in \<lparr>sa = sa h + sa s, sb = sb h + sb s, sc = sc h + sc s, sd = sd h + sd s, se = se h + se s\<rparr>)"

definition sha1 :: "pybytes \<Rightarrow> sha1_state" where
  "sha1 m =
     foldl sha1_block
       \<lparr>sa = 0x67452301, sb = 0xEFCDAB89, sc = 0x98BADCFE, sd = 0x10325476, se = 0xC3D2E1F0\<rparr>
       (chunks 64 (sha1_pad m))"

definition hexdigit_lower :: "nat \<Rightarrow> nat" where
  "hexdigit_lower n = (if n < 10 then 48 + n else 87 + n)"

fun hex_digits :: "nat \<Rightarrow> nat \<Rightarrow> pystr" where
  "hex_digits 0 x = []"
| "hex_digits (Suc n) x = hex_digits n (x div 16) @ [hexdigit_lower (x mod 16)]"

definition hex_word :: "32 word \<Rightarrow> pystr" where
  "hex_word w = hex_digits 8 (unat w)"

definition sha1_hexdigest :: "pybytes \<Rightarrow> pystr" where
  "sha1_hexdigest m =
     (let h = sha1 m
      in hex_word (sa h) @ hex_word (sb h) @ hex_word (sc h) @ hex_word (sd h) @ hex_word (se h))"

section \<open>Naive datetimes (scheduler.py)\<close>

text \<open>
  \<open>datetime.now()\<close> is a naive datetime: a proleptic Gregorian day number
  (\<open>date.toordinal()\<close>, 1 for 0001-01-01, at most 3652059 for 9999-12-31) and a time of
  day. \<open>weekday()\<close> is 0 on Monday; day 1 is a Monday. \<open>replace\<close> raises
  \<open>ValueError\<close> on a field out of range, adding a \<open>timedelta\<close> raises
  \<open>OverflowError\<close> when the date leaves the supported range, and datetimes compare
  field by field.
\<close>

record datetime =
  ordinal :: int
  hour :: int
  minute :: int
  second :: int
  microsecond :: int

definition MAXORDINAL :: int where
  "MAXORDINAL = 3652059"

definition valid_datetime :: "datetime \<Rightarrow> bool" where
  "valid_datetime d =
     (1 \<le> ordinal d \<and> ordinal d \<le> MAXORDINAL \<and> 0 \<le> hour d \<and> hour d < 24 \<and>
      0 \<le> minute d \<and> minute d < 60 \<and> 0 \<le> second d \<and> second d < 60 \<and>
      0 \<le> microsecond d \<and> microsecond d < 1000000)"

definition weekday :: "datetime \<Rightarrow> int" where
  "weekday d = (ordinal d + 6) mod 7"

definition total_microseconds :: "datetime \<Rightarrow> int" where
  "total_microseconds d =
     (((ordinal d * 24 + hour d) * 60 + minute d) * 60 + second d) * 1000000 + microsecond d"

definition datetime_le :: "datetime \<Rightarrow> datetime \<Rightarrow> bool" where
  "datetime_le a b =
     ((ordinal a, hour a, minute a, second a, microsecond a)
        \<le> (ordinal b, hour b, minute b, second b, microsecond b))"

definition replace_time :: "datetime \<Rightarrow> int \<Rightarrow> int \<Rightarrow> int \<Rightarrow> int \<Rightarrow> py_error + datetime" where
  "replace_time d h m s us =
     (if 0 \<le> h \<and> h < 24 \<and> 0 \<le> m \<and> m < 60 \<and> 0 \<le> s \<and> s < 60 \<and> 0 \<le> us \<and> us < 1000000
      then Inr (d\<lparr>hour := h, minute := m, second := s, microsecond := us\<rparr>)
      else Inl ValueError)"

definition add_days :: "datetime \<Rightarrow> int \<Rightarrow> py_error + datetime" where
  "add_days d k =
     (if 1 \<le> ordinal d + k \<and> ordinal d + k \<le> MAXORDINAL
      then Inr (d\<lparr>ordinal := ordinal d + k\<rparr>)
      else Inl OverflowError)"

text \<open>
  \<open>next_run_at(weekday, hour, minute)\<close>; the first argument of the model is the clock
  reading \<open>datetime.now()\<close>.
\<close>

definition next_run_at :: "datetime \<Rightarrow> int \<Rightarrow> int \<Rightarrow> int \<Rightarrow> py_error + datetime" where
  "next_run_at now wd h m =
     (case replace_time now h m 0 0 of
        Inl e \<Rightarrow> Inl e
      | Inr target \<Rightarrow>
          (let days_ahead = (wd - weekday target) mod 7;
               days_ahead' = (if days_ahead = 0 \<and> datetime_le target now then 7 else days_ahead)
           in add_days target days_ahead'))"

section \<open>The document record (parsers/base.py)\<close>

text \<open>
  The fields of the dataclass \<open>DocumentRecord\<close>. The dictionary \<open>meta\<close> is taken
  with strings for its keys and its values, in the order of its items.
\<close>

record DocumentRecord =
  doc_id :: pystr
  source :: pystr
  url :: pystr
  title :: pystr
  date :: "pystr option"
  language :: "pystr option"
  doc_type :: pystr
  text_body :: pystr
  pdf_urls :: "pystr list"
  meta :: "(pystr \<times> pystr) list"

section \<open>The local store (storage/local.py)\<close>

text \<open>
  What \<open>LocalStorage\<close> keeps under its root directory. For every source there is
  \<open>index.sqlite\<close> with the table \<open>seen\<close> (primary key \<open>doc_id\<close>) and the table
  \<open>pdf_seen\<close> (primary key \<open>pdf_key\<close>, column \<open>path\<close>), and \<open>records.jsonl\<close>, one
  line per call of \<open>put_record\<close>; a line is identified with the record it serialises,
  and the directory of a source with the name of the source (the names of the roster
  are plain words such as \<open>acpr\<close>). \<open>files\<close> is the file system: the paths that
  exist and their bytes. Creating the directories and the tables (\<open>_source_dir\<close>,
  \<open>_db\<close>) changes none of these.
\<close>

record LocalStorage =
  seen_tab :: "pystr \<Rightarrow> pystr set"
  pdf_seen_tab :: "pystr \<Rightarrow> (pystr \<rightharpoonup> pystr)"
  records_jsonl :: "pystr \<Rightarrow> DocumentRecord list"
  files :: "pystr \<rightharpoonup> pybytes"
  root :: pystr

definition empty_storage :: "pystr \<Rightarrow> LocalStorage" where
  "empty_storage r =
     \<lparr>seen_tab = (\<lambda>_. {}), pdf_seen_tab = (\<lambda>_. Map.empty), records_jsonl = (\<lambda>_. []),
      files = Map.empty, root = r\<rparr>"

text \<open>\<open>SELECT 1 FROM seen WHERE doc_id = ?\<close>\<close>

definition exists :: "LocalStorage \<Rightarrow> pystr \<Rightarrow> pystr \<Rightarrow> bool" where
  "exists st src did = (did \<in> seen_tab st src)"

text \<open>\<open>INSERT OR IGNORE INTO seen(doc_id) VALUES (?)\<close>\<close>

definition mark_seen :: "LocalStorage \<Rightarrow> pystr \<Rightarrow> pystr \<Rightarrow> LocalStorage" where
  "mark_seen st src did = st\<lparr>seen_tab := (seen_tab st)(src := insert did (seen_tab st src))\<rparr>"

text \<open>The \<open>f.write(json.dumps(asdict(record)) + "\n")\<close> on the file opened for appending.\<close>

definition append_line :: "LocalStorage \<Rightarrow> DocumentRecord \<Rightarrow> LocalStorage" where
  "append_line st r =
     st\<lparr>records_jsonl := (records_jsonl st)(source r := records_jsonl st (source r) @ [r])\<rparr>"

text \<open>
  What \<open>put_record\<close> raises on account of the record alone, before it has appended
  anything. \<open>_source_dir\<close> makes the directory of the source: on a POSIX system the path
  is encoded with \<open>os.fsencode\<close> (UTF-8 with the \<open>surrogateescape\<close> handler, which
  takes the surrogates U+DC80 to U+DCFF and no other), and a path with a NUL is refused
  with \<open>ValueError\<close>. The line is then written to a file opened with
  \<open>encoding="utf-8"\<close>: \<open>json.dumps(..., ensure_ascii=False)\<close> copies every string of
  the record into the line, escaping only the quote, the backslash and the control
  characters, and the write raises \<open>UnicodeEncodeError\<close> when one of them has a code
  point UTF-8 cannot encode (a lone surrogate).
\<close>

definition fs_encodable :: "pystr \<Rightarrow> bool" where
  "fs_encodable s =
     list_all (\<lambda>c. c < 55296 \<or> (56448 \<le> c \<and> c \<le> 56575) \<or> (57344 \<le> c \<and> c < 1114112)) s"

definition encodable :: "pystr \<Rightarrow> bool" where
  "encodable s = (case utf8_encode s of Inl e \<Rightarrow> False | Inr bs \<Rightarrow> True)"

definition record_strings :: "DocumentRecord \<Rightarrow> pystr list" where
  "record_strings r =
     [doc_id r, source r, url r, title r] @
     (case date r of None \<Rightarrow> [] | Some d \<Rightarrow> [d]) @
     (case language r of None \<Rightarrow> [] | Some l \<Rightarrow> [l]) @
     [doc_type r, text_body r] @ pdf_urls r @ concat (map (\<lambda>(k, v). [k, v]) (meta r))"

definition put_record_error :: "DocumentRecord \<Rightarrow> py_error option" where
  "put_record_error r =
     (if \<not> fs_encodable (source r) then Some UnicodeEncodeError
      else if 0 \<in> set (source r) then Some ValueError
      else if \<not> list_all encodable (record_strings r) then Some UnicodeEncodeError
      else None)"

definition storable :: "DocumentRecord \<Rightarrow> bool" where
  "storable r = (put_record_error r = None)"

text \<open>
  \<open>put_record\<close> has two effects, in this order: the line is appended, then the
  document is marked seen. There is no look at the index before the append.
  \<open>put_record\<close> runs both effects, or raises and has none; a process that dies inside
  \<open>put_record\<close>, or a step that raises, leaves the effects of a prefix of the list.
\<close>

definition put_record_steps :: "DocumentRecord \<Rightarrow> (LocalStorage \<Rightarrow> LocalStorage) list" where
  "put_record_steps r = [\<lambda>st. append_line st r, \<lambda>st. mark_seen st (source r) (doc_id r)]"

definition run_steps :: "(LocalStorage \<Rightarrow> LocalStorage) list \<Rightarrow> LocalStorage \<Rightarrow> LocalStorage" where
  "run_steps fs st = foldl (\<lambda>s f. f s) st fs"

definition put_record :: "LocalStorage \<Rightarrow> DocumentRecord \<Rightarrow> (py_error + unit) \<times> LocalStorage" where
  "put_record st r =
     (case put_record_error r of
        Some e \<Rightarrow> (Inl e, st)
      | None \<Rightarrow> (Inr (), run_steps (put_record_steps r) st))"

text \<open>
  The store as a crash during \<open>put_record\<close> leaves it, \<open>k\<close> effects done. A record
  that \<open>put_record\<close> refuses has no effect to be interrupted.
\<close>

definition put_record_interrupted :: "nat \<Rightarrow> LocalStorage \<Rightarrow> DocumentRecord \<Rightarrow> LocalStorage" where
  "put_record_interrupted k st r =
     (if storable r then run_steps (take k (put_record_steps r)) st else st)"

text \<open>How often a document occurs in the log of its source.\<close>

definition log_count :: "LocalStorage \<Rightarrow> pystr \<Rightarrow> pystr \<Rightarrow> nat" where
  "log_count st src did = length (filter (\<lambda>r. doc_id r = did) (records_jsonl st src))"

subsection \<open>Canonical attachment URLs\<close>

definition DROP_QUERY_KEYS :: "pystr list" where
  "DROP_QUERY_KEYS =
     [ustr ''_'', ustr ''ts'', ustr ''timestamp'', ustr ''t'', ustr ''v'', ustr ''ver'',
      ustr ''version'', ustr ''cb'', ustr ''cachebust'', ustr ''cachebuster'', ustr ''nocache'',
      ustr ''rnd'', ustr ''random'', ustr ''utm_source'', ustr ''utm_medium'',
      ustr ''utm_campaign'', ustr ''utm_term'', ustr ''utm_content'']"

definition BAD_LAST_SEGMENTS :: "pystr list" where
  "BAD_LAST_SEGMENTS =
     [[], ustr ''download'', ustr ''file'', ustr ''get'', ustr ''print'', ustr ''view'',
      ustr ''open'', ustr ''attachment'', ustr ''document'', ustr ''content'', ustr ''pdf'',
      ustr ''export'']"

text \<open>The loop that fills \<open>q2\<close>: the pairs whose lowered key is not in the deny-list.\<close>

definition kept_params :: "(pystr \<times> pystr) list \<Rightarrow> (pystr \<times> pystr) list" where
  "kept_params q = filter (\<lambda>(k, v). lower k \<notin> set DROP_QUERY_KEYS) q"

text \<open>
  \<open>_normalize_pdf_url\<close>. The argument may be \<open>None\<close> (\<open>pdf_url or ""\<close>); the result
  is a \<open>str\<close>, written \<open>Some\<close> of it so that it can be compared with the argument.
  \<open>urlsplit\<close> may raise \<open>ValueError\<close> and \<open>urlencode\<close> \<open>UnicodeEncodeError\<close>.
\<close>

definition normalize_pdf_url :: "pylib \<Rightarrow> pystr option \<Rightarrow> py_error + pystr option" where
  "normalize_pdf_url L pdf_url =
     (let u = strip (case pdf_url of None \<Rightarrow> [] | Some s \<Rightarrow> s) in
      if u = [] then Inr (Some u)
      else case urlsplit L u of
             Inl e \<Rightarrow> Inl e
           | Inr parts \<Rightarrow>
               (let q = parse_qsl (query parts);
                    q2 = sort (kept_params q)
                in case urlencode q2 of
                     Inl e \<Rightarrow> Inl e
                   | Inr new_query \<Rightarrow>
                       Inr (Some (urlunsplit (scheme parts) (netloc parts) (path parts) new_query []))))"

subsection \<open>File names\<close>

text \<open>
  \<open>_safe_filename(name, max_len)\<close>. \<open>clean_filename\<close> is the text before the length is
  looked at: stripped, unquoted, without NUL, every run of characters outside
  \<open>[\w.\-() ]\<close> replaced by one underscore, every run of whitespace by one space, and
  stripped again. A name longer than \<open>max_len\<close> is cut in front of its last dot.
\<close>

definition name_char :: "pylib \<Rightarrow> nat \<Rightarrow> bool" where
  "name_char L c =
     ((if c < 128 then is_ascii_alpha c \<or> is_digit c \<or> c = 95 else is_alnum L c)
      \<or> c \<in> set [46, 45, 40, 41, 32])"

definition clean_filename :: "pylib \<Rightarrow> pystr \<Rightarrow> pystr" where
  "clean_filename L name0 =
     (let name1 = strip name0;
          name2 = unquote name1;
          name3 = filter (\<lambda>c. c \<noteq> 0) name2;
          name4 = sub_runs (\<lambda>c. \<not> name_char L c) [95] name3
      in strip (sub_runs is_space [32] name4))"

definition name_base :: "pystr \<Rightarrow> pystr" where
  "name_base s = (if 46 \<in> set s then before_last 46 s else s)"

definition name_ext :: "pystr \<Rightarrow> pystr" where
  "name_ext s = (if 46 \<in> set s then 46 # after_last 46 s else [])"

definition safe_filename :: "pylib \<Rightarrow> pystr \<Rightarrow> int \<Rightarrow> pystr" where
  "safe_filename L name0 max_len =
     (let name5 = clean_filename L name0 in
      if int (length name5) > max_len
      then (let base = name_base name5;
                ext = name_ext name5
            in slice_to base (max_len - int (length ext)) @ ext)
      else name5)"

text \<open>
  \<open>_pdf_name_from_url\<close>: the last segment of the URL's path when it names a PDF, or
  when it can be made to with \<open>.pdf\<close> appended; an exception inside gives \<open>None\<close>.
\<close>

definition safe_name_pattern :: "pystr \<Rightarrow> bool" where
  "safe_name_pattern s =
     (case s of
        [] \<Rightarrow> False
      | c # cs \<Rightarrow>
          (is_ascii_alpha c \<or> is_digit c) \<and> 2 \<le> length cs \<and>
          list_all (\<lambda>x. is_ascii_alpha x \<or> is_digit x \<or> x \<in> set [46, 95, 45]) cs)"

definition pdf_name_from_url :: "pylib \<Rightarrow> pystr option \<Rightarrow> pystr option" where
  "pdf_name_from_url L pdf_url =
     (let u = strip (case pdf_url of None \<Rightarrow> [] | Some s \<Rightarrow> s) in
      if u = [] then None
      else case urlsplit L u of
             Inl e \<Rightarrow> None
           | Inr parts \<Rightarrow>
               (let lst = strip (unquote (after_last 47 (path parts))) in
                if suffix (ustr ''.pdf'') (lower lst) \<and> 5 \<le> length lst
                then Some (safe_filename L lst 160)
                else if contains (ustr ''/printpdf/'') (path parts) \<and> lst \<noteq> []
                        \<and> lower lst \<notin> set BAD_LAST_SEGMENTS
                then Some (safe_filename L (lst @ ustr ''.pdf'') 160)
                else if lst \<noteq> [] \<and> lower lst \<notin> set BAD_LAST_SEGMENTS \<and> safe_name_pattern lst
                then Some (safe_filename L (lst @ ustr ''.pdf'') 160)
                else None))"

subsection \<open>Attachments\<close>

text \<open>\<open>_pdf_key\<close>: the SHA-1 of the canonical URL, in hexadecimal.\<close>

definition pdf_key :: "pylib \<Rightarrow> pystr option \<Rightarrow> py_error + pystr" where
  "pdf_key L pdf_url =
     (case normalize_pdf_url L pdf_url of
        Inl e \<Rightarrow> Inl e
      | Inr None \<Rightarrow> Inl AttributeError
      | Inr (Some norm) \<Rightarrow>
          (case utf8_encode norm of Inl e \<Rightarrow> Inl e | Inr bs \<Rightarrow> Inr (sha1_hexdigest bs)))"

text \<open>\<open>pdf_seen\<close> and \<open>_pdf_seen_path\<close>: the row of the table \<open>pdf_seen\<close> for the key.\<close>

definition pdf_seen :: "pylib \<Rightarrow> LocalStorage \<Rightarrow> pystr \<Rightarrow> pystr option \<Rightarrow> py_error + bool" where
  "pdf_seen L st src pdf_url =
     (case pdf_key L pdf_url of Inl e \<Rightarrow> Inl e | Inr key \<Rightarrow> Inr (pdf_seen_tab st src key \<noteq> None))"

definition pdf_seen_path ::
  "pylib \<Rightarrow> LocalStorage \<Rightarrow> pystr \<Rightarrow> pystr option \<Rightarrow> py_error + pystr option" where
  "pdf_seen_path L st src pdf_url =
     (case pdf_key L pdf_url of Inl e \<Rightarrow> Inl e | Inr key \<Rightarrow> Inr (pdf_seen_tab st src key))"

text \<open>\<open>Path(p).exists()\<close>, and \<open>str(self._source_dir(source) / "pdf" / name)\<close>.\<close>

definition path_exists :: "LocalStorage \<Rightarrow> pystr \<Rightarrow> bool" where
  "path_exists st p = (files st p \<noteq> None)"

definition pdf_path :: "LocalStorage \<Rightarrow> pystr \<Rightarrow> pystr \<Rightarrow> pystr" where
  "pdf_path st src fname = root st @ [47] @ src @ ustr ''/pdf/'' @ fname"

text \<open>\<open>INSERT OR IGNORE INTO pdf_seen(pdf_key, path) VALUES (?, ?)\<close>\<close>

definition insert_pdf_seen :: "LocalStorage \<Rightarrow> pystr \<Rightarrow> pystr \<Rightarrow> pystr \<Rightarrow> LocalStorage" where
  "insert_pdf_seen st src key p =
     (case pdf_seen_tab st src key of
        Some old \<Rightarrow> st
      | None \<Rightarrow> st\<lparr>pdf_seen_tab := (pdf_seen_tab st)(src := (pdf_seen_tab st src)(key \<mapsto> p))\<rparr>)"

text \<open>
  The parts of \<open>put_pdf\<close>: the recorded path when it is usable (\<open>prev and
  Path(prev).exists()\<close>), the file name (from the URL, else \<open>{doc_id}.pdf\<close>), and the
  write that happens only when the path does not exist.
\<close>

definition usable_prev :: "LocalStorage \<Rightarrow> pystr option \<Rightarrow> pystr option" where
  "usable_prev st prev =
     (case prev of
        None \<Rightarrow> None
      | Some p \<Rightarrow> if p \<noteq> [] \<and> path_exists st p then Some p else None)"

definition pdf_fname :: "pylib \<Rightarrow> pystr \<Rightarrow> pystr \<Rightarrow> pystr" where
  "pdf_fname L did pdf_url =
     (case pdf_name_from_url L (Some pdf_url) of
        None \<Rightarrow> safe_filename L (did @ ustr ''.pdf'') 160
      | Some n \<Rightarrow> if n = [] then safe_filename L (did @ ustr ''.pdf'') 160 else n)"

definition write_if_absent :: "LocalStorage \<Rightarrow> pystr \<Rightarrow> pybytes \<Rightarrow> LocalStorage" where
  "write_if_absent st p content =
     (if path_exists st p then st else st\<lparr>files := (files st)(p \<mapsto> content)\<rparr>)"

text \<open>
  \<open>put_pdf(source, doc_id, pdf_url, content)\<close> returns the stored path, or raises what
  the canonicalisation of the URL raises, before it has changed anything.
\<close>

definition put_pdf ::
  "pylib \<Rightarrow> LocalStorage \<Rightarrow> pystr \<Rightarrow> pystr \<Rightarrow> pystr \<Rightarrow> pybytes \<Rightarrow> (py_error + pystr) \<times> LocalStorage" where
  "put_pdf L st src did pdf_url content =
     (case pdf_seen_path L st src (Some pdf_url) of
        Inl e \<Rightarrow> (Inl e, st)
      | Inr prev \<Rightarrow>
          (case usable_prev st prev of
             Some p \<Rightarrow> (Inr p, st)
           | None \<Rightarrow>
               (let p = pdf_path st src (pdf_fname L did pdf_url);
                    st1 = write_if_absent st p content
                in case pdf_key L (Some pdf_url) of
                     Inl e \<Rightarrow> (Inl e, st1)
                   | Inr key \<Rightarrow> (Inr p, insert_pdf_seen st1 src key p))))"

text \<open>
  What the operations of the store make of a state of the store: \<open>put_record\<close> (whole
  or cut short), \<open>mark_seen\<close> and \<open>put_pdf\<close>. No operation of the store removes a
  file.
\<close>

inductive store_step :: "pylib \<Rightarrow> LocalStorage \<Rightarrow> LocalStorage \<Rightarrow> bool" where
  step_put_record: "store_step L st (put_record_interrupted k st r)"
| step_mark_seen: "store_step L st (mark_seen st src did)"
| step_put_pdf: "put_pdf L st src did pdf_url content = (res, st') \<Longrightarrow> store_step L st st'"

text \<open>A store grows: no file and no index entry is removed or changed.\<close>

definition grows :: "LocalStorage \<Rightarrow> LocalStorage \<Rightarrow> bool" where
  "grows st st' =
     ((\<forall>q b. files st q = Some b \<longrightarrow> files st' q = Some b) \<and>
      (\<forall>s k q. pdf_seen_tab st s k = Some q \<longrightarrow> pdf_seen_tab st' s k = Some q))"

text \<open>
  For the examples: a record; the store that holds \<open>report.pdf\<close> for another URL; and a
  store whose index names, for the URL \<open>https://x/download?id=5\<close>, a file that is no
  longer there (the case that the test \<open>Path(prev).exists()\<close> of \<open>put_pdf\<close> is for).
\<close>

definition example_record :: DocumentRecord where
  "example_record =
     \<lparr>doc_id = ustr ''d1'', source = ustr ''acpr'', url = ustr ''https://x/a'',
      title = ustr ''t'', date = Some (ustr ''2024-01-03''), language = None,
      doc_type = ustr ''News'', text_body = [], pdf_urls = [], meta = []\<rparr>"

definition collision_store :: LocalStorage where
  "collision_store =
     snd (put_pdf ascii_lib (empty_storage (ustr ''data'')) (ustr ''acpr'') (ustr ''d0'')
            (ustr ''https://x/2023/report.pdf'') [1])"

definition dangling_store :: LocalStorage where
  "dangling_store =
     (empty_storage (ustr ''data''))
       \<lparr>pdf_seen_tab :=
          (\<lambda>s. if s = ustr ''acpr''
                then [sha1_hexdigest (ustr ''https://x/download?id=5'') \<mapsto>
                        ustr ''data/acpr/pdf/gone.pdf'']
                else Map.empty)\<rparr>"

section \<open>One pass over the roster (scheduler.py, run\_once)\<close>

text \<open>
  A step of \<open>put_record\<close> can raise on account of the environment (the directory, the
  write, the insert into the index), and a \<open>KeyboardInterrupt\<close> can arrive at any
  point. The environment decides it: \<open>None\<close> lets the call through, \<open>Some (k, e)\<close>
  raises \<open>e\<close> when \<open>k\<close> effects are done and the next one is due. A record that
  \<open>put_record\<close> refuses has no first effect, so that only a fault before the first
  effect can come before its own error.
\<close>

type_synonym io_oracle = "LocalStorage \<Rightarrow> DocumentRecord \<Rightarrow> (nat \<times> py_error) option"

definition put_record_io ::
  "(nat \<times> py_error) option \<Rightarrow> LocalStorage \<Rightarrow> DocumentRecord \<Rightarrow> (py_error + unit) \<times> LocalStorage" where
  "put_record_io fault st r =
     (case fault of
        None \<Rightarrow> put_record st r
      | Some (k, e) \<Rightarrow>
          if k = 0 \<or> (storable r \<and> k < length (put_record_steps r))
          then (Inl e, put_record_interrupted k st r)
          else put_record st r)"

text \<open>
  A harvester is opaque: a name and \<open>fetch_range(start_dt, end_dt, storage)\<close>, which
  returns a list of records or raises. Of the store the harvesters use \<open>exists\<close>,
  \<open>pdf_seen\<close>, \<open>put_pdf\<close> and \<open>put_text\<close> (which stores nothing) and no other
  method: what a call of \<open>fetch_range\<close> does to the store is the list of its calls of
  \<open>put_pdf\<close> (source, document id, URL, payload), made before it returns or raises.
\<close>

type_synonym pdf_call = "pystr \<times> pystr \<times> pystr \<times> pybytes"

definition apply_pdf_calls :: "pylib \<Rightarrow> pdf_call list \<Rightarrow> LocalStorage \<Rightarrow> LocalStorage" where
  "apply_pdf_calls L calls st =
     foldl (\<lambda>s (src, did, pdf_url, content). snd (put_pdf L s src did pdf_url content)) st calls"

record Parser =
  name :: pystr
  fetch_range ::
    "datetime \<Rightarrow> datetime \<Rightarrow> LocalStorage \<Rightarrow> (py_error + DocumentRecord list) \<times> pdf_call list"

text \<open>
  The state of a pass: \<open>total_new\<close>, the harvesters invoked so far (the \<open>RUN:\<close> lines
  of the log) and the store.
\<close>

record pass_state =
  total_new :: nat
  invoked :: "pystr list"
  storage :: LocalStorage

text \<open>
  The inner loop \<open>for rec in records\<close>: \<open>except Exception\<close> drops the record and goes
  on; anything else leaves the pass.
\<close>

fun save_records ::
  "io_oracle \<Rightarrow> DocumentRecord list \<Rightarrow> nat \<Rightarrow> LocalStorage \<Rightarrow> (py_error + nat) \<times> LocalStorage" where
  "save_records io [] saved st = (Inr saved, st)"
| "save_records io (r # recs) saved st =
     (case put_record_io (io st r) st r of
        (Inr ok, st') \<Rightarrow> save_records io recs (saved + 1) st'
      | (Inl e, st') \<Rightarrow>
          if is_Exception e then save_records io recs saved st' else (Inl e, st'))"

text \<open>The outer loop \<open>for parser in PARSERS\<close>.\<close>

fun run_parsers ::
  "pylib \<Rightarrow> io_oracle \<Rightarrow> datetime \<Rightarrow> datetime \<Rightarrow> Parser list \<Rightarrow> pass_state \<Rightarrow>
   py_error + pass_state" where
  "run_parsers L io start_dt end_dt [] ps = Inr ps"
| "run_parsers L io start_dt end_dt (p # rest) ps =
     (let ps1 = ps\<lparr>invoked := invoked ps @ [name p]\<rparr> in
      case fetch_range p start_dt end_dt (storage ps1) of
        (Inl e, calls) \<Rightarrow>
          if is_Exception e
          then run_parsers L io start_dt end_dt rest
                 (ps1\<lparr>storage := apply_pdf_calls L calls (storage ps1)\<rparr>)
          else Inl e
      | (Inr records, calls) \<Rightarrow>
          (case save_records io records 0 (apply_pdf_calls L calls (storage ps1)) of
             (Inl e, st'') \<Rightarrow> Inl e
           | (Inr saved, st'') \<Rightarrow>
               run_parsers L io start_dt end_dt rest
                 (ps1\<lparr>total_new := total_new ps1 + saved, storage := st''\<rparr>)))"

text \<open>
  \<open>run_once(root, days, logger)\<close>: the window ends at the clock reading and starts
  \<open>days\<close> days before it; the roster \<open>PARSERS\<close> and the store found under \<open>root\<close> are
  arguments of the model.
\<close>

definition run_once ::
  "pylib \<Rightarrow> io_oracle \<Rightarrow> Parser list \<Rightarrow> datetime \<Rightarrow> int \<Rightarrow> LocalStorage \<Rightarrow>
   py_error + pass_state" where
  "run_once L io parsers now days st =
     (case add_days now (- days) of
        Inl e \<Rightarrow> Inl e
      | Inr start_dt \<Rightarrow>
          run_parsers L io start_dt now parsers \<lparr>total_new = 0, invoked = [], storage = st\<rparr>)"

text \<open>
  A record that \<open>put_record\<close> saves whenever it is called: it can be written and the
  environment lets it through.
\<close>

definition saves :: "io_oracle \<Rightarrow> DocumentRecord \<Rightarrow> bool" where
  "saves io r = (storable r \<and> (\<forall>st. io st r = None))"

text \<open>
  For the examples: a harvester that raises, a harvester that returns two records, and
  an environment in which saving the first of them fails at the write.
\<close>

definition bad_record :: DocumentRecord where
  "bad_record = example_record\<lparr>doc_id := ustr ''d0''\<rparr>"

definition crashing_parser :: Parser where
  "crashing_parser = \<lparr>name = ustr ''boe'', fetch_range = (\<lambda>s e st. (Inl RuntimeError, []))\<rparr>"

definition two_record_parser :: Parser where
  "two_record_parser =
     \<lparr>name = ustr ''acpr'', fetch_range = (\<lambda>s e st. (Inr [bad_record, example_record], []))\<rparr>"

definition example_io :: io_oracle where
  "example_io st r = (if doc_id r = ustr ''d0'' then Some (0, OSError) else None)"

definition example_clock :: datetime where
  "example_clock = \<lparr>ordinal = 739925, hour = 10, minute = 3, second = 27, microsecond = 5\<rparr>"

section \<open>Properties of the scheduler's clock arithmetic\<close>

lemma weekday_range: "0 \<le> weekday d \<and> weekday d < 7"
  by (simp add: weekday_def)

text \<open>
  Claim C10. For a weekday in 0..6, an hour in 0..23 and a minute in 0..59,
  \<open>next_run_at\<close> returns a datetime strictly later than the clock reading, at most seven
  days after it, on the requested weekday, hour and minute, with seconds and
  microseconds zero. The clock is a valid datetime at least seven days before
  \<open>datetime.max\<close>, the last week in which \<open>target + timedelta(days=7)\<close> can overflow.
\<close>

theorem next_run_at_spec:
  assumes now: "valid_datetime now" "ordinal now + 7 \<le> MAXORDINAL"
    and wd: "0 \<le> wd" "wd \<le> 6" and h: "0 \<le> h" "h \<le> 23" and m: "0 \<le> m" "m \<le> 59"
  shows "\<exists>r. next_run_at now wd h m = Inr r \<and>
           total_microseconds now < total_microseconds r \<and>
           total_microseconds r \<le> total_microseconds now + 7 * 86400 * 1000000 \<and>
           weekday r = wd \<and> hour r = h \<and> minute r = m \<and> second r = 0 \<and> microsecond r = 0 \<and>
           valid_datetime r"
proof -
  define target where "target = now\<lparr>hour := h, minute := m, second := 0, microsecond := 0\<rparr>"
  define k0 where "k0 = (wd - weekday target) mod 7"
  define k where "k = (if k0 = 0 \<and> datetime_le target now then 7 else k0)"
  have rep: "replace_time now h m 0 0 = Inr target"
    using h m by (simp add: replace_time_def target_def)
  have k0_range: "0 \<le> k0" "k0 < 7"
    by (simp_all add: k0_def)
  have k_range: "0 \<le> k" "k \<le> 7"
    using k0_range by (simp_all add: k_def)
  have ord_t: "ordinal target = ordinal now"
    by (simp add: target_def)
  have add: "add_days target k = Inr (target\<lparr>ordinal := ordinal now + k\<rparr>)"
    using now k_range by (simp add: add_days_def ord_t valid_datetime_def)
  define r where "r = target\<lparr>ordinal := ordinal now + k\<rparr>"
  have res: "next_run_at now wd h m = Inr r"
    by (simp add: next_run_at_def rep Let_def add r_def k_def [symmetric] k0_def [symmetric])
  have fields: "hour r = h" "minute r = m" "second r = 0" "microsecond r = 0"
    "ordinal r = ordinal now + k"
    by (simp_all add: r_def target_def)
  have wk: "weekday r = wd"
  proof -
    have "weekday r = (ordinal now + 6 + k) mod 7"
      by (simp add: weekday_def fields algebra_simps)
    also have "\<dots> = (ordinal now + 6 + k0) mod 7"
    proof (cases "k = k0")
      case True
      then show ?thesis by simp
    next
      case False
      then have "k = 7" "k0 = 0"
        by (simp_all add: k_def split: if_splits)
      then show ?thesis by presburger
    qed
    also have "\<dots> = ((ordinal now + 6) mod 7 + (wd - (ordinal now + 6) mod 7) mod 7) mod 7"
      by (simp add: k0_def weekday_def ord_t mod_simps)
    also have "\<dots> = wd mod 7"
      by (simp add: mod_simps)
    also have "\<dots> = wd"
      using wd by simp
    finally show ?thesis .
  qed
  have tm_r: "total_microseconds r =
      (((ordinal now + k) * 24 + h) * 60 + m) * 60 * 1000000"
    by (simp add: total_microseconds_def fields)
  have tm_now: "total_microseconds now =
      (((ordinal now * 24 + hour now) * 60 + minute now) * 60 + second now) * 1000000
        + microsecond now"
    by (simp add: total_microseconds_def)
  have nowr: "0 \<le> hour now" "hour now < 24" "0 \<le> minute now" "minute now < 60"
    "0 \<le> second now" "second now < 60" "0 \<le> microsecond now" "microsecond now < 1000000"
    using now by (simp_all add: valid_datetime_def)
  have le_iff: "datetime_le target now \<longleftrightarrow>
      (h < hour now \<or> (h = hour now \<and> (m < minute now \<or>
         (m = minute now \<and> (0 < second now \<or> (0 = second now \<and> 0 \<le> microsecond now))))))"
    by (auto simp add: datetime_le_def target_def less_eq_prod_def less_prod_def)
  have later: "total_microseconds now < total_microseconds r"
  proof (cases "k = 0")
    case True
    then have "\<not> datetime_le target now"
      by (auto simp add: k_def split: if_splits)
    then have "hour now < h \<or> (hour now = h \<and> minute now < m)"
      using nowr by (auto simp add: le_iff)
    then show ?thesis
      using nowr True m unfolding tm_r tm_now by (simp add: algebra_simps) arith
  next
    case False
    then have "1 \<le> k" using k_range by simp
    then have "(ordinal now + 1) * 24 * 60 * 60 * 1000000 \<le> total_microseconds r"
      using h m by (simp add: tm_r algebra_simps)
    moreover have "total_microseconds now < (ordinal now + 1) * 24 * 60 * 60 * 1000000"
      using nowr by (simp add: tm_now algebra_simps)
    ultimately show ?thesis by simp
  qed
  have within: "total_microseconds r \<le> total_microseconds now + 7 * 86400 * 1000000"
  proof (cases "k = 7")
    case True
    then have "datetime_le target now"
      using k0_range by (auto simp add: k_def split: if_splits)
    then have "h < hour now \<or> (h = hour now \<and> m \<le> minute now)"
      by (auto simp add: le_iff)
    then show ?thesis
      using nowr True m unfolding tm_r tm_now by (simp add: algebra_simps) arith
  next
    case False
    then have "k \<le> 6" using k_range by simp
    then have "total_microseconds r < (ordinal now + 7) * 24 * 60 * 60 * 1000000"
      using h m by (simp add: tm_r algebra_simps)
    moreover have "ordinal now * 24 * 60 * 60 * 1000000 \<le> total_microseconds now"
      using nowr by (simp add: tm_now algebra_simps)
    ultimately show ?thesis by (simp add: algebra_simps)
  qed
  have valid: "valid_datetime r"
    using now k_range h m by (simp add: valid_datetime_def fields)
  show ?thesis
    using res later within wk fields valid by blast
qed

theorem next_run_at_spec_witness:
  "\<exists>r. next_run_at \<lparr>ordinal = 739925, hour = 10, minute = 3, second = 27, microsecond = 5\<rparr> 0 9 0 = Inr r \<and>
     total_microseconds \<lparr>ordinal = 739925, hour = 10, minute = 3, second = 27, microsecond = 5\<rparr>
       < total_microseconds r \<and>
     total_microseconds r
       \<le> total_microseconds \<lparr>ordinal = 739925, hour = 10, minute = 3, second = 27, microsecond = 5\<rparr>
           + 7 * 86400 * 1000000 \<and>
     weekday r = 0 \<and> hour r = 9 \<and> minute r = 0 \<and> second r = 0 \<and> microsecond r = 0 \<and>
     valid_datetime r"
  using next_run_at_spec [of "\<lparr>ordinal = 739925, hour = 10, minute = 3, second = 27, microsecond = 5\<rparr>" 0 9 0]
  by (simp add: valid_datetime_def MAXORDINAL_def)

section \<open>Properties of the record log\<close>

lemma put_record_storable:
  "storable r \<Longrightarrow>
     put_record st r = (Inr (), mark_seen (append_line st r) (source r) (doc_id r))"
  by (simp add: put_record_def storable_def run_steps_def put_record_steps_def)

lemma put_record_refused: "put_record_error r = Some e \<Longrightarrow> put_record st r = (Inl e, st)"
  by (simp add: put_record_def)

lemma put_record_error_Exception: "put_record_error r = Some e \<Longrightarrow> is_Exception e"
  by (auto simp add: put_record_error_def split: if_splits)

lemma put_record_interrupted_eq:
  "storable r \<Longrightarrow>
     put_record_interrupted k st r =
       (if k = 0 then st else if k = 1 then append_line st r
        else mark_seen (append_line st r) (source r) (doc_id r))"
proof -
  have "k = 0 \<or> k = 1 \<or> 2 \<le> k" by arith
  then show "storable r \<Longrightarrow> ?thesis"
    by (auto simp add: put_record_interrupted_def run_steps_def put_record_steps_def)
qed

lemma put_record_interrupted_refused: "\<not> storable r \<Longrightarrow> put_record_interrupted k st r = st"
  by (simp add: put_record_interrupted_def)

lemma storable_example_record: "storable example_record"
  by (simp add: storable_def put_record_error_def fs_encodable_def record_strings_def
      encodable_def example_record_def ustr_def utf8_encode_char_def)

lemma log_count_append_line:
  "log_count (append_line st r) (source r) (doc_id r) = log_count st (source r) (doc_id r) + 1"
  by (simp add: log_count_def append_line_def)

lemma log_count_mark_seen: "log_count (mark_seen st src did) s d = log_count st s d"
  by (simp add: log_count_def mark_seen_def)

text \<open>
  Claim C1, as stated, fails: \<open>put_record\<close> does not look at the index. On the empty
  store the first call makes \<open>exists\<close> true, and the second call of the same record is
  no no-op: it changes the store, and the log of the source then has two entries.
\<close>

theorem put_record_twice_counterexample:
  "exists (snd (put_record (empty_storage (ustr ''data'')) example_record))
      (source example_record) (doc_id example_record) \<and>
   snd (put_record (snd (put_record (empty_storage (ustr ''data'')) example_record))
          example_record)
     \<noteq> snd (put_record (empty_storage (ustr ''data'')) example_record) \<and>
   records_jsonl
      (snd (put_record (snd (put_record (empty_storage (ustr ''data'')) example_record))
              example_record))
      (source example_record) = [example_record, example_record]"
proof -
  let ?E = "empty_storage (ustr ''data'')"
  let ?st1 = "snd (put_record ?E example_record)"
  let ?st2 = "snd (put_record ?st1 example_record)"
  have log1: "records_jsonl ?st1 (source example_record) = [example_record]"
    by (simp add: put_record_storable [OF storable_example_record] mark_seen_def
        append_line_def empty_storage_def)
  have log2: "records_jsonl ?st2 (source example_record) = [example_record, example_record]"
    by (simp add: put_record_storable [OF storable_example_record] mark_seen_def
        append_line_def empty_storage_def)
  have seen: "exists ?st1 (source example_record) (doc_id example_record)"
    by (simp add: put_record_storable [OF storable_example_record] mark_seen_def
        append_line_def exists_def)
  have "?st2 \<noteq> ?st1"
    using log1 log2 by auto
  then show ?thesis
    using seen log2 by simp
qed

text \<open>
  Claim C1, amended. \<open>put_record\<close> has no look at the index. For a record that can be
  written (its source names a directory and its strings can be encoded in UTF-8), every
  call returns normally, appends one entry to the log of the record's source and marks
  the id seen, whether or not \<open>exists\<close> was true before: \<open>exists\<close> is true after the
  first call, and a second \<open>put_record\<close> of the same record adds a second entry and
  leaves the index of seen documents as it is.
\<close>

theorem put_record_appends_and_marks:
  assumes "storable r"
  shows "fst (put_record st r) = Inr () \<and>
         exists (snd (put_record st r)) (source r) (doc_id r) \<and>
         records_jsonl (snd (put_record st r)) (source r) = records_jsonl st (source r) @ [r] \<and>
         fst (put_record (snd (put_record st r)) r) = Inr () \<and>
         records_jsonl (snd (put_record (snd (put_record st r)) r)) (source r)
           = records_jsonl st (source r) @ [r, r] \<and>
         seen_tab (snd (put_record (snd (put_record st r)) r)) = seen_tab (snd (put_record st r))"
proof -
  have "seen_tab (snd (put_record (snd (put_record st r)) r)) = seen_tab (snd (put_record st r))"
    by (rule ext)
       (simp add: put_record_storable [OF assms] mark_seen_def append_line_def insert_absorb)
  then show ?thesis
    by (simp add: put_record_storable [OF assms] mark_seen_def append_line_def exists_def)
qed

theorem put_record_appends_and_marks_witness:
  "storable example_record \<and>
   fst (put_record (empty_storage (ustr ''data'')) example_record) = Inr () \<and>
   exists (snd (put_record (empty_storage (ustr ''data'')) example_record))
     (ustr ''acpr'') (ustr ''d1'') \<and>
   records_jsonl (snd (put_record (empty_storage (ustr ''data'')) example_record)) (ustr ''acpr'')
     = [example_record] \<and>
   records_jsonl
     (snd (put_record (snd (put_record (empty_storage (ustr ''data'')) example_record))
             example_record)) (ustr ''acpr'')
     = [example_record, example_record]"
proof -
  have s: "source example_record = ustr ''acpr''" "doc_id example_record = ustr ''d1''"
    by (simp_all add: example_record_def)
  have e: "records_jsonl (empty_storage (ustr ''data'')) (ustr ''acpr'') = []"
    by (simp add: empty_storage_def)
  show ?thesis
    using put_record_appends_and_marks [OF storable_example_record,
        of "empty_storage (ustr ''data'')"] storable_example_record
    by (simp add: s e)
qed

text \<open>
  A record that cannot be written: \<open>put_record\<close> raises an exception that \<open>except
  Exception\<close> catches, and the store is as it was.
\<close>

lemma put_record_refuses:
  assumes "\<not> storable r"
  shows "\<exists>e. put_record st r = (Inl e, st) \<and> is_Exception e"
proof -
  obtain e where e: "put_record_error r = Some e"
    using assms by (auto simp add: storable_def)
  then show ?thesis
    using put_record_refused [OF e] put_record_error_Exception [OF e] by blast
qed

text \<open>
  Claim C2, as stated, fails: the line is appended before the id is marked seen, and
  nothing ties the two effects together. When the process dies between them, on the
  empty store, the log has the line and \<open>exists\<close> is false; the harvester therefore
  does not skip the document when it meets it again, and the \<open>put_record\<close> that
  follows appends the line a second time.
\<close>

theorem put_record_crash_counterexample:
  "\<not> exists (put_record_interrupted 1 (empty_storage (ustr ''data'')) example_record)
        (source example_record) (doc_id example_record) \<and>
   records_jsonl (put_record_interrupted 1 (empty_storage (ustr ''data'')) example_record)
     (source example_record) = [example_record] \<and>
   records_jsonl
     (snd (put_record (put_record_interrupted 1 (empty_storage (ustr ''data'')) example_record)
             example_record))
     (source example_record) = [example_record, example_record]"
  by (simp add: put_record_interrupted_eq [OF storable_example_record]
      put_record_storable [OF storable_example_record] mark_seen_def append_line_def
      exists_def empty_storage_def)

text \<open>
  Claim C2, amended. \<open>put_record\<close> appends the line first and marks the id seen
  second, with nothing that ties the two effects together. For a record that can be
  written, a crash after \<open>k\<close> effects leaves the store unchanged when \<open>k = 0\<close>, with
  the line in the log and the index of seen documents unchanged when \<open>k = 1\<close> (so
  \<open>exists\<close> answers as before the call), and with both effects when \<open>k \<ge> 2\<close>; the
  attachments and their index are untouched. A \<open>put_record\<close> of the same record that
  follows appends the line whatever was left: the log then has the record once more than
  before the interrupted call when \<open>k = 0\<close>, and twice more when \<open>k \<ge> 1\<close>.
\<close>

theorem put_record_interrupted_prefixes:
  assumes "storable r"
  shows "records_jsonl (put_record_interrupted k st r) =
           (if k = 0 then records_jsonl st
            else (records_jsonl st)(source r := records_jsonl st (source r) @ [r])) \<and>
         seen_tab (put_record_interrupted k st r) =
           (if k < 2 then seen_tab st
            else (seen_tab st)(source r := insert (doc_id r) (seen_tab st (source r)))) \<and>
         pdf_seen_tab (put_record_interrupted k st r) = pdf_seen_tab st \<and>
         files (put_record_interrupted k st r) = files st \<and>
         root (put_record_interrupted k st r) = root st \<and>
         exists (put_record_interrupted k st r) (source r) (doc_id r)
           = (2 \<le> k \<or> exists st (source r) (doc_id r)) \<and>
         log_count (snd (put_record (put_record_interrupted k st r) r)) (source r) (doc_id r)
           = log_count st (source r) (doc_id r) + (if k = 0 then 1 else 2)"
proof -
  consider "k = 0" | "k = 1" | "2 \<le> k" by arith
  then show ?thesis
  proof cases
    case 1
    then show ?thesis
      by (simp add: put_record_interrupted_eq [OF assms] put_record_storable [OF assms]
          log_count_mark_seen log_count_append_line)
  next
    case 2
    then show ?thesis
      by (simp add: put_record_interrupted_eq [OF assms] put_record_storable [OF assms]
          log_count_mark_seen log_count_append_line)
         (simp add: append_line_def exists_def)
  next
    case 3
    then show ?thesis
      by (simp add: put_record_interrupted_eq [OF assms] put_record_storable [OF assms]
          log_count_mark_seen log_count_append_line)
         (simp add: append_line_def mark_seen_def exists_def)
  qed
qed

theorem put_record_interrupted_prefixes_witness:
  "storable example_record \<and>
   records_jsonl (put_record_interrupted 1 (empty_storage (ustr ''data'')) example_record)
     (ustr ''acpr'') = [example_record] \<and>
   seen_tab (put_record_interrupted 1 (empty_storage (ustr ''data'')) example_record)
     = seen_tab (empty_storage (ustr ''data'')) \<and>
   \<not> exists (put_record_interrupted 1 (empty_storage (ustr ''data'')) example_record)
       (ustr ''acpr'') (ustr ''d1'') \<and>
   log_count
     (snd (put_record (put_record_interrupted 1 (empty_storage (ustr ''data'')) example_record)
             example_record)) (ustr ''acpr'') (ustr ''d1'') = 2"
proof -
  have s: "source example_record = ustr ''acpr''" "doc_id example_record = ustr ''d1''"
    by (simp_all add: example_record_def)
  have e: "records_jsonl (empty_storage (ustr ''data'')) = (\<lambda>_. [])"
    "\<not> exists (empty_storage (ustr ''data'')) (ustr ''acpr'') (ustr ''d1'')"
    "log_count (empty_storage (ustr ''data'')) (ustr ''acpr'') (ustr ''d1'') = 0"
    by (simp_all add: empty_storage_def exists_def log_count_def)
  show ?thesis
    using put_record_interrupted_prefixes [OF storable_example_record,
        of 1 "empty_storage (ustr ''data'')"] storable_example_record
    by (simp add: s e)
qed

section \<open>Properties of a pass\<close>

lemma records_jsonl_put_pdf: "records_jsonl (snd (put_pdf L st src d u c)) = records_jsonl st"
  by (auto simp add: put_pdf_def Let_def insert_pdf_seen_def write_if_absent_def
      split: sum.splits option.splits)

lemma records_jsonl_apply_pdf_calls: "records_jsonl (apply_pdf_calls L calls st) = records_jsonl st"
proof (induction calls arbitrary: st)
  case Nil
  then show ?case by (simp add: apply_pdf_calls_def)
next
  case (Cons c calls)
  obtain src d u b where c: "c = (src, d, u, b)"
    by (cases c) auto
  have "apply_pdf_calls L (c # calls) st = apply_pdf_calls L calls (snd (put_pdf L st src d u b))"
    by (simp add: apply_pdf_calls_def c)
  then show ?case
    by (simp add: Cons.IH records_jsonl_put_pdf)
qed

lemma put_record_log:
  "\<exists>extra. records_jsonl (snd (put_record st r)) src = records_jsonl st src @ extra"
proof (cases "storable r")
  case True
  then show ?thesis
    by (simp add: put_record_storable mark_seen_def append_line_def)
next
  case False
  then obtain e where "put_record_error r = Some e"
    by (auto simp add: storable_def)
  then show ?thesis
    by (simp add: put_record_refused)
qed

lemma put_record_interrupted_log:
  "\<exists>extra. records_jsonl (put_record_interrupted k st r) src = records_jsonl st src @ extra"
proof (cases "storable r")
  case True
  then show ?thesis
    by (simp add: put_record_interrupted_eq mark_seen_def append_line_def)
next
  case False
  then show ?thesis
    by (simp add: put_record_interrupted_refused)
qed

lemma put_record_io_log:
  "\<exists>extra. records_jsonl (snd (put_record_io f st r)) src = records_jsonl st src @ extra"
  using put_record_log [of st r src] put_record_interrupted_log [of _ st r src]
  by (auto simp add: put_record_io_def split: option.splits)

lemma put_record_io_saves:
  "saves io r \<Longrightarrow>
     put_record_io (io st r) st r = (Inr (), mark_seen (append_line st r) (source r) (doc_id r))"
  by (simp add: saves_def put_record_io_def put_record_storable)

lemma save_records_append:
  "save_records io (xs @ ys) n st =
     (case save_records io xs n st of
        (Inl e, st') \<Rightarrow> (Inl e, st')
      | (Inr n', st') \<Rightarrow> save_records io ys n' st')"
  by (induction xs arbitrary: n st) (auto split: prod.splits sum.splits)

lemma save_records_log:
  "save_records io recs n st = (Inr n', st') \<Longrightarrow>
     n + length (filter (saves io) recs) \<le> n' \<and> n' \<le> n + length recs \<and>
     (\<exists>extra. records_jsonl st' src = records_jsonl st src @ extra \<and>
        subseq (filter (\<lambda>r. source r = src \<and> saves io r) recs) extra)"
proof (induction recs arbitrary: n st)
  case Nil
  then show ?case by simp
next
  case (Cons r recs)
  show ?case
  proof (cases "saves io r")
    case True
    let ?st1 = "mark_seen (append_line st r) (source r) (doc_id r)"
    have run: "save_records io recs (n + 1) ?st1 = (Inr n', st')"
      using Cons.prems by (simp add: put_record_io_saves [OF True])
    from Cons.IH [OF run] obtain extra where
      ih: "n + 1 + length (filter (saves io) recs) \<le> n'" "n' \<le> n + 1 + length recs"
        "records_jsonl st' src = records_jsonl ?st1 src @ extra"
        "subseq (filter (\<lambda>r. source r = src \<and> saves io r) recs) extra"
      by blast
    show ?thesis
    proof (cases "source r = src")
      case same: True
      have "records_jsonl st' src = records_jsonl st src @ (r # extra)"
        using ih(3) same by (simp add: mark_seen_def append_line_def)
      moreover have "subseq (filter (\<lambda>r. source r = src \<and> saves io r) (r # recs)) (r # extra)"
        using ih(4) same True by simp
      ultimately show ?thesis
        using ih(1,2) True by auto
    next
      case other: False
      have "records_jsonl st' src = records_jsonl st src @ extra"
        using ih(3) other by (simp add: mark_seen_def append_line_def)
      moreover have "subseq (filter (\<lambda>r. source r = src \<and> saves io r) (r # recs)) extra"
        using ih(4) other by simp
      ultimately show ?thesis
        using ih(1,2) True by auto
    qed
  next
    case False
    obtain res st1 where step: "put_record_io (io st r) st r = (res, st1)"
      by (cases "put_record_io (io st r) st r") auto
    obtain e1 where e1: "records_jsonl st1 src = records_jsonl st src @ e1"
      using put_record_io_log [of "io st r" st r src] step by auto
    obtain m where run: "save_records io recs m st1 = (Inr n', st')" and m: "n \<le> m" "m \<le> n + 1"
      using Cons.prems step by (cases res) (auto split: if_splits)
    from Cons.IH [OF run] obtain extra where
      ih: "m + length (filter (saves io) recs) \<le> n'" "n' \<le> m + length recs"
        "records_jsonl st' src = records_jsonl st1 src @ extra"
        "subseq (filter (\<lambda>r. source r = src \<and> saves io r) recs) extra"
      by blast
    have "records_jsonl st' src = records_jsonl st src @ (e1 @ extra)"
      using ih(3) e1 by simp
    moreover have "subseq (filter (\<lambda>r. source r = src \<and> saves io r) (r # recs)) (e1 @ extra)"
      using ih(4) False by (simp add: list_emb_append2)
    ultimately show ?thesis
      using ih(1,2) m False by auto
  qed
qed

lemma save_records_prefix:
  "save_records io recs n st = (res, st') \<Longrightarrow>
     \<exists>extra. records_jsonl st' src = records_jsonl st src @ extra"
proof (induction recs arbitrary: n st)
  case Nil
  then show ?case by simp
next
  case (Cons r recs)
  obtain res1 st1 where step: "put_record_io (io st r) st r = (res1, st1)"
    by (cases "put_record_io (io st r) st r") auto
  obtain e1 where e1: "records_jsonl st1 src = records_jsonl st src @ e1"
    using put_record_io_log [of "io st r" st r src] step by auto
  show ?case
  proof (cases res1)
    case (Inr ok)
    then have "save_records io recs (n + 1) st1 = (res, st')"
      using Cons.prems step by simp
    from Cons.IH [OF this] e1 show ?thesis by auto
  next
    case (Inl a)
    show ?thesis
    proof (cases "is_Exception a")
      case True
      then have "save_records io recs n st1 = (res, st')"
        using Cons.prems step Inl by simp
      from Cons.IH [OF this] e1 show ?thesis by auto
    next
      case False
      then have "st' = st1"
        using Cons.prems step Inl by simp
      then show ?thesis using e1 by simp
    qed
  qed
qed

lemma run_parsers_append:
  "run_parsers L io s e (xs @ ys) ps =
     (case run_parsers L io s e xs ps of
        Inl err \<Rightarrow> Inl err
      | Inr ps' \<Rightarrow> run_parsers L io s e ys ps')"
  by (induction xs arbitrary: ps) (auto simp add: Let_def split: prod.splits sum.splits)

lemma run_parsers_grows:
  "run_parsers L io s e roster ps = Inr psf \<Longrightarrow>
     invoked psf = invoked ps @ map name roster \<and> total_new ps \<le> total_new psf \<and>
     prefix (records_jsonl (storage ps) src) (records_jsonl (storage psf) src)"
proof (induction roster arbitrary: ps)
  case Nil
  then show ?case by simp
next
  case (Cons p roster)
  let ?ps1 = "ps\<lparr>invoked := invoked ps @ [name p]\<rparr>"
  obtain res calls where f: "fetch_range p s e (storage ps) = (res, calls)"
    by (cases "fetch_range p s e (storage ps)") auto
  let ?st1 = "apply_pdf_calls L calls (storage ps)"
  show ?case
  proof (cases res)
    case (Inl err)
    then have run: "run_parsers L io s e roster (?ps1\<lparr>storage := ?st1\<rparr>) = Inr psf"
      using Cons.prems f by (simp add: Let_def split: if_splits)
    from Cons.IH [OF run] show ?thesis
      by (simp add: records_jsonl_apply_pdf_calls)
  next
    case (Inr recs)
    obtain r2 st2 where sv: "save_records io recs 0 ?st1 = (r2, st2)"
      by (cases "save_records io recs 0 ?st1") auto
    then obtain k where k: "r2 = Inr k"
      and run: "run_parsers L io s e roster (?ps1\<lparr>total_new := total_new ps + k, storage := st2\<rparr>)
                  = Inr psf"
      using Cons.prems f Inr by (cases r2) (simp_all add: Let_def)
    obtain extra where "records_jsonl st2 src = records_jsonl ?st1 src @ extra"
      using save_records_prefix [OF sv] by blast
    then have "prefix (records_jsonl (storage ps) src) (records_jsonl st2 src)"
      by (simp add: records_jsonl_apply_pdf_calls)
    moreover from Cons.IH [OF run]
    have "invoked psf = invoked ps @ map name (p # roster)" "total_new ps \<le> total_new psf"
      "prefix (records_jsonl st2 src) (records_jsonl (storage psf) src)"
      by simp_all
    ultimately show ?thesis
      using prefix_order.trans by blast
  qed
qed

text \<open>
  Claim C5. In a pass of \<open>run_once\<close> over the roster \<open>before @ A # mid @ B # after\<close>,
  let the \<open>fetch_range\<close> of \<open>A\<close> raise an exception that \<open>except Exception\<close>
  catches, let the harvesters \<open>mid\<close> run to their end, let the \<open>fetch_range\<close> of the
  later harvester \<open>B\<close> return the records \<open>recs\<close>, and let the loop over them run to
  its end with the count \<open>n\<close> and the store \<open>stB\<close>. Then the pass goes on with the
  harvesters \<open>after\<close>, with \<open>A\<close> and \<open>B\<close> invoked and \<open>n\<close> added to the total;
  \<open>n\<close> counts at least the records of \<open>B\<close> that \<open>put_record\<close> saves, so that a
  record of \<open>B\<close> on which \<open>put_record\<close> raises takes nothing from the others; every
  such record of \<open>B\<close> is in the log of its source in \<open>stB\<close>, behind what the log had
  and in the order of \<open>recs\<close>; and when the pass returns, every harvester of the roster
  was invoked in order, the total includes \<open>n\<close>, and the log of every source still
  begins with what it was in \<open>stB\<close>.
\<close>

theorem run_once_isolates_failures:
  assumes clock: "add_days now (- days) = Inr s"
    and before: "run_parsers L io s now before \<lparr>total_new = 0, invoked = [], storage = st\<rparr>
                   = Inr ps1"
    and crash: "fetch_range A s now (storage ps1) = (Inl err, callsA)"
    and exc: "is_Exception err"
    and mid: "run_parsers L io s now mid
                (ps1\<lparr>invoked := invoked ps1 @ [name A],
                     storage := apply_pdf_calls L callsA (storage ps1)\<rparr>) = Inr ps2"
    and fetchB: "fetch_range B s now (storage ps2) = (Inr recs, callsB)"
    and saveB: "save_records io recs 0 (apply_pdf_calls L callsB (storage ps2)) = (Inr n, stB)"
  shows "run_once L io (before @ A # mid @ B # after) now days st =
           run_parsers L io s now after
             \<lparr>total_new = total_new ps2 + n, invoked = map name (before @ A # mid @ [B]),
              storage = stB\<rparr> \<and>
         length (filter (saves io) recs) \<le> n \<and> n \<le> length recs \<and>
         (\<forall>src. \<exists>extra. records_jsonl stB src = records_jsonl (storage ps2) src @ extra \<and>
                  subseq (filter (\<lambda>r. source r = src \<and> saves io r) recs) extra) \<and>
         (\<forall>psf. run_once L io (before @ A # mid @ B # after) now days st = Inr psf \<longrightarrow>
            invoked psf = map name (before @ A # mid @ B # after) \<and>
            total_new ps2 + n \<le> total_new psf \<and>
            (\<forall>src. prefix (records_jsonl stB src) (records_jsonl (storage psf) src)))"
proof -
  let ?ps0 = "\<lparr>total_new = 0, invoked = [], storage = st\<rparr>"
  let ?psA = "ps1\<lparr>invoked := invoked ps1 @ [name A],
                   storage := apply_pdf_calls L callsA (storage ps1)\<rparr>"
  let ?psB = "\<lparr>total_new = total_new ps2 + n, invoked = map name (before @ A # mid @ [B]),
              storage = stB\<rparr>"
  have inv1: "invoked ps1 = map name before"
    using run_parsers_grows [OF before] by simp
  have inv2: "invoked ps2 = map name (before @ A # mid)"
    using run_parsers_grows [OF mid] inv1 by simp
  have stepA: "run_parsers L io s now (A # mid) ps1 = Inr ps2"
    using crash exc mid by (simp add: Let_def del: is_Exception.simps)
  have stepB: "run_parsers L io s now (B # after) ps2 = run_parsers L io s now after ?psB"
    using fetchB saveB inv2 by (cases ps2) (simp add: Let_def)
  have e1: "run_parsers L io s now (before @ ((A # mid) @ (B # after))) ?ps0
          = run_parsers L io s now ((A # mid) @ (B # after)) ps1"
    by (simp only: run_parsers_append before sum.case)
  have e2: "run_parsers L io s now ((A # mid) @ (B # after)) ps1
          = run_parsers L io s now (B # after) ps2"
    by (simp only: run_parsers_append stepA sum.case)
  have roster: "before @ A # mid @ B # after = before @ ((A # mid) @ (B # after))"
    by simp
  have "run_parsers L io s now (before @ A # mid @ B # after) ?ps0
          = run_parsers L io s now after ?psB"
    unfolding roster e1 e2 stepB ..
  then have eq: "run_once L io (before @ A # mid @ B # after) now days st
                   = run_parsers L io s now after ?psB"
    by (simp add: run_once_def clock)
  have cnt: "length (filter (saves io) recs) \<le> n" "n \<le> length recs"
    using save_records_log [OF saveB, of "[]"] by simp_all
  have logB: "\<exists>extra. records_jsonl stB src = records_jsonl (storage ps2) src @ extra \<and>
                  subseq (filter (\<lambda>r. source r = src \<and> saves io r) recs) extra" for src
    using save_records_log [OF saveB, of src] by (simp add: records_jsonl_apply_pdf_calls)
  have fin: "invoked psf = map name (before @ A # mid @ B # after) \<and>
            total_new ps2 + n \<le> total_new psf \<and>
            (\<forall>src. prefix (records_jsonl stB src) (records_jsonl (storage psf) src))"
    if "run_once L io (before @ A # mid @ B # after) now days st = Inr psf" for psf
  proof -
    have run: "run_parsers L io s now after ?psB = Inr psf"
      using that eq by simp
    show ?thesis
      using run_parsers_grows [OF run] by simp
  qed
  show ?thesis
    using eq cnt logB fin by blast
qed

theorem run_once_isolates_failures_witness:
  "add_days example_clock (- 7) = Inr (example_clock\<lparr>ordinal := 739918\<rparr>) \<and>
   fetch_range crashing_parser (example_clock\<lparr>ordinal := 739918\<rparr>) example_clock
     (empty_storage (ustr ''data'')) = (Inl RuntimeError, []) \<and>
   is_Exception RuntimeError \<and>
   fetch_range two_record_parser (example_clock\<lparr>ordinal := 739918\<rparr>) example_clock
     (empty_storage (ustr ''data'')) = (Inr [bad_record, example_record], []) \<and>
   save_records example_io [bad_record, example_record] 0 (empty_storage (ustr ''data''))
     = (Inr 1, mark_seen (append_line (empty_storage (ustr ''data'')) example_record)
                 (ustr ''acpr'') (ustr ''d1'')) \<and>
   \<not> saves example_io bad_record \<and>
   saves example_io example_record \<and>
   run_once ascii_lib example_io [crashing_parser, two_record_parser] example_clock 7
       (empty_storage (ustr ''data''))
     = Inr \<lparr>total_new = 1, invoked = [ustr ''boe'', ustr ''acpr''],
            storage = mark_seen (append_line (empty_storage (ustr ''data'')) example_record)
                        (ustr ''acpr'') (ustr ''d1'')\<rparr> \<and>
   records_jsonl (mark_seen (append_line (empty_storage (ustr ''data'')) example_record)
                    (ustr ''acpr'') (ustr ''d1'')) (ustr ''acpr'') = [example_record]"
proof -
  let ?E = "empty_storage (ustr ''data'')"
  let ?s = "example_clock\<lparr>ordinal := 739918\<rparr>"
  let ?ps0 = "\<lparr>total_new = 0, invoked = [], storage = ?E\<rparr>"
  let ?S = "mark_seen (append_line ?E example_record) (ustr ''acpr'') (ustr ''d1'')"
  have clock: "add_days example_clock (- 7) = Inr ?s"
    by (simp add: add_days_def example_clock_def MAXORDINAL_def)
  have before: "run_parsers ascii_lib example_io ?s example_clock [] ?ps0 = Inr ?ps0"
    by simp
  have crash: "fetch_range crashing_parser ?s example_clock (storage ?ps0) = (Inl RuntimeError, [])"
    by (simp add: crashing_parser_def)
  have exc: "is_Exception RuntimeError"
    by simp
  have mid: "run_parsers ascii_lib example_io ?s example_clock []
       (?ps0\<lparr>invoked := invoked ?ps0 @ [name crashing_parser],
              storage := apply_pdf_calls ascii_lib [] (storage ?ps0)\<rparr>)
     = Inr \<lparr>total_new = 0, invoked = [ustr ''boe''], storage = ?E\<rparr>"
    by (simp add: crashing_parser_def apply_pdf_calls_def)
  have fetchB: "fetch_range two_record_parser ?s example_clock
       (storage \<lparr>total_new = 0, invoked = [ustr ''boe''], storage = ?E\<rparr>)
     = (Inr [bad_record, example_record], [])"
    by (simp add: two_record_parser_def)
  have io_bad: "example_io st bad_record = Some (0, OSError)" for st
    by (simp add: example_io_def bad_record_def)
  have io_ok: "example_io st example_record = None" for st
    by (simp add: example_io_def example_record_def ustr_def)
  have s: "source example_record = ustr ''acpr''" "doc_id example_record = ustr ''d1''"
    by (simp_all add: example_record_def)
  have bad: "put_record_io (example_io ?E bad_record) ?E bad_record = (Inl OSError, ?E)"
    by (simp add: io_bad put_record_io_def put_record_interrupted_def run_steps_def)
  have ok: "put_record_io (example_io ?E example_record) ?E example_record = (Inr (), ?S)"
    by (simp add: io_ok put_record_io_def put_record_storable [OF storable_example_record] s)
  have saveB: "save_records example_io [bad_record, example_record] 0
       (apply_pdf_calls ascii_lib []
          (storage \<lparr>total_new = 0, invoked = [ustr ''boe''], storage = ?E\<rparr>))
     = (Inr 1, ?S)"
    by (simp add: apply_pdf_calls_def bad ok)
  have sv1: "\<not> saves example_io bad_record"
    by (simp add: saves_def io_bad)
  have sv2: "saves example_io example_record"
    by (simp add: saves_def io_ok storable_example_record)
  have log: "records_jsonl ?S (ustr ''acpr'') = [example_record]"
    by (simp add: mark_seen_def append_line_def empty_storage_def s)
  have names: "name crashing_parser = ustr ''boe''" "name two_record_parser = ustr ''acpr''"
    by (simp_all add: crashing_parser_def two_record_parser_def)
  note w = run_once_isolates_failures [OF clock before crash exc mid fetchB saveB, of "[]"]
  have run: "run_once ascii_lib example_io [crashing_parser, two_record_parser] example_clock 7 ?E
     = Inr \<lparr>total_new = 1, invoked = [ustr ''boe'', ustr ''acpr''], storage = ?S\<rparr>"
    using w by (simp add: names del: save_records.simps)
  show ?thesis
    using clock crash exc fetchB saveB sv1 sv2 run log
    by (simp add: apply_pdf_calls_def del: save_records.simps)
qed

lemmas str_eval = ustr_def strip_def is_space_def is_ascii_alpha_def is_digit_def is_hexdig_def
  hexval_def hexdigit_upper_def lower_def before_first_def after_first_def before_last_def
  after_last_def slice_to_def is_cont_def

lemmas url_eval = normalize_pdf_url_def urlsplit_def urlunsplit_def parse_qsl_def parse_field_def
  unquote_plus_def unquote_def urlencode_def quote_plus_def quote_def quote_from_bytes_def
  quote_byte_def always_safe_def kept_params_def DROP_QUERY_KEYS_def uses_netloc_def
  scheme_chars_def splitnetloc_def netloc_delim_def netloc_ok_def checknetloc_def
  utf8_encode_char_def Let_def

lemmas name_eval = safe_filename_def clean_filename_def name_char_def name_base_def name_ext_def
  ascii_lib_def

section \<open>Properties of the canonical URL\<close>

text \<open>
  Claim C6, as stated, fails for \<open>None\<close>: \<open>pdf_url or ""\<close> turns \<open>None\<close> into the
  empty string, which is what the function returns; it never returns \<open>None\<close>.
\<close>

theorem normalize_none_counterexample:
  "normalize_pdf_url ascii_lib None = Inr (Some []) \<and> normalize_pdf_url ascii_lib None \<noteq> Inr None"
  by (simp add: normalize_pdf_url_def strip_def)

text \<open>
  Claim C6, amended. Canonicalisation maps the empty string to the empty string and
  \<open>None\<close> to the empty string as well, and raises no error on either.
\<close>

theorem normalize_empty_input:
  "normalize_pdf_url L (Some []) = Inr (Some []) \<and> normalize_pdf_url L None = Inr (Some [])"
  by (simp add: normalize_pdf_url_def strip_def)

text \<open>
  Claim C7, as stated, fails: the input is stripped of surrounding whitespace,
  \<open>urlsplit\<close> keeps the space at the end of the path, and dropping the fragment puts that
  space at the end of the result. A second pass strips it.
\<close>

theorem normalize_idempotence_counterexample:
  "normalize_pdf_url ascii_lib (Some (ustr ''http://x/a #f'')) = Inr (Some (ustr ''http://x/a '')) \<and>
   normalize_pdf_url ascii_lib (Some (ustr ''http://x/a '')) = Inr (Some (ustr ''http://x/a'')) \<and>
   ustr ''http://x/a'' \<noteq> ustr ''http://x/a ''"
  by (simp add: str_eval url_eval)

lemma sort_mset_eq:
  fixes xs ys :: "('a :: linorder) list"
  assumes "mset xs = mset ys"
  shows "sort xs = sort ys"
proof -
  have "mset (sort ys) = mset xs"
    using assms by simp
  then show ?thesis
    by (rule properties_for_sort) simp
qed

lemma urlsplit_Nil:
  "urlsplit L [] = Inr \<lparr>scheme = [], netloc = [], path = [], query = [], fragment = []\<rparr>"
  by (simp add: urlsplit_def before_first_def checknetloc_def)

text \<open>The early return for the empty string gives what the rest of the function would.\<close>

lemma normalize_pdf_url_split:
  "normalize_pdf_url L (Some u) =
     (case urlsplit L (strip u) of
        Inl e \<Rightarrow> Inl e
      | Inr parts \<Rightarrow>
          (case urlencode (sort (kept_params (parse_qsl (query parts)))) of
             Inl e \<Rightarrow> Inl e
           | Inr new_query \<Rightarrow>
               Inr (Some (urlunsplit (scheme parts) (netloc parts) (path parts) new_query []))))"
proof (cases "strip u = []")
  case True
  then show ?thesis
    by (simp add: normalize_pdf_url_def urlsplit_Nil parse_qsl_def kept_params_def urlencode_def
        urlunsplit_def)
next
  case False
  then show ?thesis
    by (simp add: normalize_pdf_url_def Let_def split: sum.splits)
qed

text \<open>
  Claim C8, as stated, fails under whitespace: the URL is stripped before it is split,
  so that the space at the end of a path stays when a query or a fragment follows it and
  goes when nothing does. \<open>https://x/a ?ts=1\<close> and \<open>https://x/a \<close> differ only in
  the parameter \<open>ts\<close> of the deny-list, and their canonical forms differ.
\<close>

theorem normalize_tracking_counterexample:
  "normalize_pdf_url ascii_lib (Some (ustr ''https://x/a ?ts=1'')) = Inr (Some (ustr ''https://x/a '')) \<and>
   normalize_pdf_url ascii_lib (Some (ustr ''https://x/a '')) = Inr (Some (ustr ''https://x/a'')) \<and>
   ustr ''https://x/a '' \<noteq> ustr ''https://x/a''"
  by (simp add: str_eval url_eval)

text \<open>
  Claim C8, amended. Two URLs that, once stripped, split into the same scheme, host and
  path, and whose query parameters outside the deny-list are the same up to their order,
  have the same canonical form (or raise the same error), whatever their fragments and
  their parameters of the deny-list. The two pairs of the claim are instances:
  \<open>https://x/a?b=1&a=2\<close> and \<open>https://x/a?a=2&b=1\<close> both give
  \<open>https://x/a?a=2&b=1\<close>, and \<open>https://x/a?utm_source=y&id=5\<close> and
  \<open>https://x/a?id=5\<close> both give \<open>https://x/a?id=5\<close>.
\<close>

theorem normalize_pdf_url_same_parts:
  assumes "urlsplit L (strip u1) = Inr p1" and "urlsplit L (strip u2) = Inr p2"
    and "scheme p1 = scheme p2" and "netloc p1 = netloc p2" and "path p1 = path p2"
    and "mset (kept_params (parse_qsl (query p1))) = mset (kept_params (parse_qsl (query p2)))"
  shows "normalize_pdf_url L (Some u1) = normalize_pdf_url L (Some u2)"
proof -
  have "sort (kept_params (parse_qsl (query p1))) = sort (kept_params (parse_qsl (query p2)))"
    using assms(6) by (rule sort_mset_eq)
  then show ?thesis
    using assms(1-5) by (simp add: normalize_pdf_url_split split: sum.splits)
qed

lemma split_order1:
  "urlsplit ascii_lib (ustr ''https://x/a?b=1&a=2'')
     = Inr \<lparr>scheme = ustr ''https'', netloc = ustr ''x'', path = ustr ''/a'',
            query = ustr ''b=1&a=2'', fragment = []\<rparr>"
  by (simp add: str_eval url_eval)

lemma split_order2:
  "urlsplit ascii_lib (ustr ''https://x/a?a=2&b=1#top'')
     = Inr \<lparr>scheme = ustr ''https'', netloc = ustr ''x'', path = ustr ''/a'',
            query = ustr ''a=2&b=1'', fragment = ustr ''top''\<rparr>"
  by (simp add: str_eval url_eval)

lemma params_order1:
  "kept_params (parse_qsl (ustr ''b=1&a=2'')) = [(ustr ''b'', ustr ''1''), (ustr ''a'', ustr ''2'')]"
  by (simp add: str_eval url_eval)

lemma params_order2:
  "kept_params (parse_qsl (ustr ''a=2&b=1'')) = [(ustr ''a'', ustr ''2''), (ustr ''b'', ustr ''1'')]"
  by (simp add: str_eval url_eval)

theorem normalize_pdf_url_same_parts_witness:
  "strip (ustr ''https://x/a?b=1&a=2'') = ustr ''https://x/a?b=1&a=2'' \<and>
   strip (ustr '' https://x/a?a=2&b=1#top'') = ustr ''https://x/a?a=2&b=1#top'' \<and>
   urlsplit ascii_lib (ustr ''https://x/a?b=1&a=2'')
     = Inr \<lparr>scheme = ustr ''https'', netloc = ustr ''x'', path = ustr ''/a'',
            query = ustr ''b=1&a=2'', fragment = []\<rparr> \<and>
   urlsplit ascii_lib (ustr ''https://x/a?a=2&b=1#top'')
     = Inr \<lparr>scheme = ustr ''https'', netloc = ustr ''x'', path = ustr ''/a'',
            query = ustr ''a=2&b=1'', fragment = ustr ''top''\<rparr> \<and>
   mset (kept_params (parse_qsl (ustr ''b=1&a=2''))) = mset (kept_params (parse_qsl (ustr ''a=2&b=1''))) \<and>
   normalize_pdf_url ascii_lib (Some (ustr ''https://x/a?b=1&a=2''))
     = normalize_pdf_url ascii_lib (Some (ustr '' https://x/a?a=2&b=1#top'')) \<and>
   normalize_pdf_url ascii_lib (Some (ustr ''https://x/a?b=1&a=2''))
     = Inr (Some (ustr ''https://x/a?a=2&b=1'')) \<and>
   normalize_pdf_url ascii_lib (Some (ustr ''https://x/a?a=2&b=1''))
     = Inr (Some (ustr ''https://x/a?a=2&b=1'')) \<and>
   normalize_pdf_url ascii_lib (Some (ustr ''https://x/a?utm_source=y&id=5''))
     = Inr (Some (ustr ''https://x/a?id=5'')) \<and>
   normalize_pdf_url ascii_lib (Some (ustr ''https://x/a?id=5''))
     = Inr (Some (ustr ''https://x/a?id=5''))"
proof -
  have s1: "strip (ustr ''https://x/a?b=1&a=2'') = ustr ''https://x/a?b=1&a=2''"
    by (simp add: str_eval)
  have s2: "strip (ustr '' https://x/a?a=2&b=1#top'') = ustr ''https://x/a?a=2&b=1#top''"
    by (simp add: str_eval)
  have m: "mset (kept_params (parse_qsl (ustr ''b=1&a=2'')))
             = mset (kept_params (parse_qsl (ustr ''a=2&b=1'')))"
    by (simp add: params_order1 params_order2)
  have e1: "normalize_pdf_url ascii_lib (Some (ustr ''https://x/a?b=1&a=2''))
     = Inr (Some (ustr ''https://x/a?a=2&b=1''))"
    by (simp add: str_eval url_eval)
  have e2: "normalize_pdf_url ascii_lib (Some (ustr ''https://x/a?a=2&b=1''))
     = Inr (Some (ustr ''https://x/a?a=2&b=1''))"
    by (simp add: str_eval url_eval)
  have e3: "normalize_pdf_url ascii_lib (Some (ustr ''https://x/a?utm_source=y&id=5''))
     = Inr (Some (ustr ''https://x/a?id=5''))"
    by (simp add: str_eval url_eval)
  have e4: "normalize_pdf_url ascii_lib (Some (ustr ''https://x/a?id=5''))
     = Inr (Some (ustr ''https://x/a?id=5''))"
    by (simp add: str_eval url_eval)
  have w: "normalize_pdf_url ascii_lib (Some (ustr ''https://x/a?b=1&a=2''))
     = normalize_pdf_url ascii_lib (Some (ustr '' https://x/a?a=2&b=1#top''))"
    using normalize_pdf_url_same_parts [where ?u1.0 = "ustr ''https://x/a?b=1&a=2''"
        and ?u2.0 = "ustr '' https://x/a?a=2&b=1#top''" and L = ascii_lib,
        unfolded s1 s2, OF split_order1 split_order2]
      m by simp
  show ?thesis
    by (intro conjI) (rule s1, rule s2, rule split_order1, rule split_order2,
        rule m, rule w, rule e1, rule e2, rule e3, rule e4)
qed

section \<open>Properties of file names\<close>

lemma base_ext: "name_base s @ name_ext s = s"
proof (cases "46 \<in> set s")
  case False
  then show ?thesis by (simp add: name_base_def name_ext_def)
next
  case True
  let ?P = "\<lambda>c. c \<noteq> (46::nat)"
  have "46 \<in> set (rev s)" using True by simp
  then have "dropWhile ?P (rev s) \<noteq> []"
    by (simp add: dropWhile_eq_Nil_conv)
  moreover have "hd (dropWhile ?P (rev s)) = 46"
    using hd_dropWhile [OF calculation] by simp
  ultimately have dw: "dropWhile ?P (rev s) = 46 # drop 1 (dropWhile ?P (rev s))"
    by (cases "dropWhile ?P (rev s)") simp_all
  have "rev s = takeWhile ?P (rev s) @ dropWhile ?P (rev s)"
    by simp
  then have "s = rev (dropWhile ?P (rev s)) @ rev (takeWhile ?P (rev s))"
    by (metis rev_append rev_rev_ident)
  also have "\<dots> = rev (drop 1 (dropWhile ?P (rev s))) @ [46] @ rev (takeWhile ?P (rev s))"
    by (subst dw) simp
  finally show ?thesis
    using True by (simp add: name_base_def name_ext_def before_last_def after_last_def
        before_first_def after_first_def)
qed

text \<open>
  Claim C9, as stated, fails, in both parts, at the name \<open>a.b/cdef\<close> with the limit 3.
  What follows the last dot of the input is \<open>b/cdef\<close>, but the slash is replaced before
  the extension is looked at, so the result does not end with it. And the extension of the
  cleaned name, \<open>.b_cdef\<close>, is longer than the limit: \<open>max_len - len(ext)\<close> is negative,
  the slice counts from the end of the base, and the result has seven characters.
\<close>

theorem safe_filename_counterexample:
  "\<not> int (length (safe_filename ascii_lib (ustr ''a.b/cdef'') 3)) \<le> 3 \<and>
   \<not> suffix (after_last 46 (ustr ''a.b/cdef'')) (safe_filename ascii_lib (ustr ''a.b/cdef'') 3)"
  by (simp add: name_eval str_eval unquote_def suffix_def)

text \<open>
  Claim C9, amended. Let \<open>s\<close> be the cleaned name and \<open>e\<close> its extension: the last dot
  of \<open>s\<close> with what follows it, empty when \<open>s\<close> has no dot. When \<open>e\<close> is at most
  \<open>max_len\<close> long, the result is at most \<open>max_len\<close> long and ends with \<open>e\<close>; it is
  \<open>s\<close> itself when \<open>s\<close> is at most \<open>max_len\<close> long and has exactly \<open>max_len\<close>
  characters otherwise. Nothing is said for an extension longer than \<open>max_len\<close>.
\<close>

theorem safe_filename_spec:
  assumes "int (length (name_ext (clean_filename L n))) \<le> m"
  shows "int (length (safe_filename L n m)) \<le> m \<and>
         suffix (name_ext (clean_filename L n)) (safe_filename L n m) \<and>
         (if int (length (clean_filename L n)) \<le> m
          then safe_filename L n m = clean_filename L n
          else int (length (safe_filename L n m)) = m)"
proof (cases "int (length (clean_filename L n)) \<le> m")
  case True
  have "suffix (name_ext (clean_filename L n)) (clean_filename L n)"
    by (metis base_ext suffixI)
  then show ?thesis
    using True by (simp add: safe_filename_def)
next
  case False
  let ?s = "clean_filename L n"
  let ?k = "m - int (length (name_ext ?s))"
  have out: "safe_filename L n m = slice_to (name_base ?s) ?k @ name_ext ?s"
    using False by (simp add: safe_filename_def Let_def)
  have k: "0 \<le> ?k" using assms by simp
  have "length ?s = length (name_base ?s) + length (name_ext ?s)"
    by (metis base_ext length_append)
  then have "nat ?k \<le> length (name_base ?s)"
    using False by simp
  then have "length (slice_to (name_base ?s) ?k) = nat ?k"
    using k by (simp add: slice_to_def)
  then have "int (length (safe_filename L n m)) = m"
    using k by (simp add: out)
  then show ?thesis
    using False by (simp add: out suffix_def)
qed

theorem safe_filename_spec_witness:
  "int (length (name_ext (clean_filename ascii_lib (ustr ''report one.pdf'')))) \<le> 8 \<and>
   safe_filename ascii_lib (ustr ''report one.pdf'') 8 = ustr ''repo.pdf'' \<and>
   int (length (safe_filename ascii_lib (ustr ''report one.pdf'') 8)) \<le> 8 \<and>
   suffix (ustr ''.pdf'') (safe_filename ascii_lib (ustr ''report one.pdf'') 8)"
proof -
  have c: "clean_filename ascii_lib (ustr ''report one.pdf'') = ustr ''report one.pdf''"
    by (simp add: name_eval str_eval unquote_def)
  have e: "name_ext (ustr ''report one.pdf'') = ustr ''.pdf''"
    by (simp add: name_eval str_eval)
  have h: "int (length (name_ext (clean_filename ascii_lib (ustr ''report one.pdf'')))) \<le> 8"
    by (simp add: c e) (simp add: ustr_def)
  have v: "safe_filename ascii_lib (ustr ''report one.pdf'') 8 = ustr ''repo.pdf''"
    by (simp add: safe_filename_def c) (simp add: name_eval str_eval)
  show ?thesis
    using safe_filename_spec [OF h] h v by (simp add: c e)
qed

section \<open>Properties of the attachment store\<close>

lemma pdf_path_nonempty: "pdf_path st src fname \<noteq> []"
  by (simp add: pdf_path_def)

lemma put_pdf_error:
  "pdf_key L (Some u) = Inl e \<Longrightarrow> put_pdf L st src d u c = (Inl e, st)"
  by (simp add: put_pdf_def pdf_seen_path_def)

lemma put_pdf_hit:
  assumes "pdf_key L (Some u) = Inr key" "pdf_seen_tab st src key = Some p" "p \<noteq> []"
    "path_exists st p"
  shows "put_pdf L st src d u c = (Inr p, st)"
  using assms by (simp add: put_pdf_def pdf_seen_path_def usable_prev_def)

lemma put_pdf_miss:
  assumes "pdf_key L (Some u) = Inr key" "usable_prev st (pdf_seen_tab st src key) = None"
  shows "put_pdf L st src d u c =
           (Inr (pdf_path st src (pdf_fname L d u)),
            insert_pdf_seen (write_if_absent st (pdf_path st src (pdf_fname L d u)) c) src key
              (pdf_path st src (pdf_fname L d u)))"
  using assms by (simp add: put_pdf_def pdf_seen_path_def Let_def)

lemma usable_prev_Some:
  "usable_prev st prev = Some p \<longleftrightarrow> prev = Some p \<and> p \<noteq> [] \<and> path_exists st p"
  by (cases prev) (auto simp add: usable_prev_def)

lemma files_insert_pdf_seen: "files (insert_pdf_seen st src key p) = files st"
  by (cases "pdf_seen_tab st src key") (simp_all add: insert_pdf_seen_def)

lemma tab_insert_pdf_seen:
  "pdf_seen_tab (insert_pdf_seen st src key p) s k =
     (if s = src \<and> k = key \<and> pdf_seen_tab st src key = None then Some p else pdf_seen_tab st s k)"
  by (cases "pdf_seen_tab st src key") (auto simp add: insert_pdf_seen_def)

lemma tab_write_if_absent: "pdf_seen_tab (write_if_absent st p c) = pdf_seen_tab st"
  by (simp add: write_if_absent_def)

lemma files_write_if_absent:
  "files (write_if_absent st p c) q =
     (if q = p \<and> files st p = None then Some c else files st q)"
  by (simp add: write_if_absent_def path_exists_def)

lemma grows_refl: "grows st st"
  by (simp add: grows_def)

lemma grows_trans: "grows a b \<Longrightarrow> grows b c \<Longrightarrow> grows a c"
  by (simp add: grows_def)

lemma grows_put_pdf: "grows st (snd (put_pdf L st src d u c))"
proof (cases "pdf_key L (Some u)")
  case (Inl e)
  then show ?thesis by (simp add: put_pdf_error grows_refl)
next
  case (Inr key)
  show ?thesis
  proof (cases "usable_prev st (pdf_seen_tab st src key)")
    case None
    show ?thesis
      by (simp add: put_pdf_miss [OF Inr None] grows_def files_insert_pdf_seen
          tab_insert_pdf_seen tab_write_if_absent files_write_if_absent)
  next
    case (Some p)
    then show ?thesis
      using put_pdf_hit [OF Inr] by (simp add: usable_prev_Some grows_refl)
  qed
qed

lemma put_record_interrupted_cases:
  "put_record_interrupted k st r = st \<or> put_record_interrupted k st r = append_line st r \<or>
   put_record_interrupted k st r = mark_seen (append_line st r) (source r) (doc_id r)"
proof -
  have "k = 0 \<or> k = 1 \<or> 2 \<le> k" by arith
  then show ?thesis
    by (auto simp add: put_record_interrupted_def run_steps_def put_record_steps_def)
qed

lemma files_put_record_interrupted: "files (put_record_interrupted k st r) = files st"
  using put_record_interrupted_cases [of k st r]
  by (auto simp add: mark_seen_def append_line_def)

lemma tab_put_record_interrupted: "pdf_seen_tab (put_record_interrupted k st r) = pdf_seen_tab st"
  using put_record_interrupted_cases [of k st r]
  by (auto simp add: mark_seen_def append_line_def)

lemma grows_step: "store_step L st st' \<Longrightarrow> grows st st'"
proof (induction rule: store_step.induct)
  case (step_put_record L st k r)
  then show ?case
    by (simp add: grows_def files_put_record_interrupted tab_put_record_interrupted)
next
  case (step_mark_seen L st src did)
  then show ?case by (simp add: grows_def mark_seen_def)
next
  case (step_put_pdf L st src did pdf_url content res st')
  then show ?case
    using grows_put_pdf [of st L src did pdf_url content] by simp
qed

lemma grows_steps: "(store_step L)\<^sup>*\<^sup>* st st' \<Longrightarrow> grows st st'"
  by (induction rule: rtranclp_induct) (auto intro: grows_refl grows_trans grows_step)

text \<open>
  Two calls for one canonical URL, in a store in which the path that the index has for
  the URL, if it has one, exists.
\<close>

lemma put_pdf_two_calls:
  assumes call1: "put_pdf L st0 src d1 u1 c1 = (Inr p1, st1)"
    and prev: "pdf_seen_path L st0 src (Some u1) = Inr prev"
    and usable: "usable_prev st0 prev = prev"
    and later: "(store_step L)\<^sup>*\<^sup>* st1 st2"
    and same: "normalize_pdf_url L (Some u2) = normalize_pdf_url L (Some u1)"
  shows "put_pdf L st2 src d2 u2 c2 = (Inr p1, st2) \<and>
         files st2 p1 = files st1 p1 \<and>
         (if path_exists st0 p1 then files st1 p1 = files st0 p1 else files st1 p1 = Some c1) \<and>
         (\<exists>key. pdf_key L (Some u1) = Inr key \<and> pdf_key L (Some u2) = Inr key \<and>
            pdf_seen_tab st1 src key = Some p1 \<and> pdf_seen_tab st2 src key = Some p1)"
proof -
  obtain key where key: "pdf_key L (Some u1) = Inr key"
    using call1 put_pdf_error [of L u1 _ st0 src d1 c1]
    by (cases "pdf_key L (Some u1)") auto
  have key2: "pdf_key L (Some u2) = Inr key"
    using key same by (simp add: pdf_key_def)
  have prev_eq: "prev = pdf_seen_tab st0 src key"
    using prev key by (simp add: pdf_seen_path_def)
  have facts: "p1 \<noteq> [] \<and> pdf_seen_tab st1 src key = Some p1 \<and>
      (if path_exists st0 p1 then files st1 p1 = files st0 p1 else files st1 p1 = Some c1) \<and>
      path_exists st1 p1"
  proof (cases "usable_prev st0 (pdf_seen_tab st0 src key)")
    case (Some p)
    then have p: "pdf_seen_tab st0 src key = Some p" "p \<noteq> []" "path_exists st0 p"
      by (simp_all add: usable_prev_Some)
    then have "p1 = p" "st1 = st0"
      using put_pdf_hit [OF key p, of d1 c1] call1 by simp_all
    then show ?thesis using p by simp
  next
    case None
    have absent: "pdf_seen_tab st0 src key = None"
      using None usable prev_eq by simp
    let ?p = "pdf_path st0 src (pdf_fname L d1 u1)"
    have "p1 = ?p" "st1 = insert_pdf_seen (write_if_absent st0 ?p c1) src key ?p"
      using put_pdf_miss [OF key None, of d1 c1] call1 by simp_all
    then show ?thesis
      using absent pdf_path_nonempty [of st0 src "pdf_fname L d1 u1"]
      by (simp add: files_insert_pdf_seen tab_insert_pdf_seen tab_write_if_absent
          files_write_if_absent path_exists_def)
  qed
  then obtain b where b: "files st1 p1 = Some b"
    by (auto simp add: path_exists_def)
  have g: "grows st1 st2"
    using later by (rule grows_steps)
  have f2: "files st2 p1 = Some b"
    using g b by (simp add: grows_def)
  have tab2: "pdf_seen_tab st2 src key = Some p1"
    using g facts by (simp add: grows_def)
  have call2: "put_pdf L st2 src d2 u2 c2 = (Inr p1, st2)"
    using put_pdf_hit [OF key2 tab2] facts f2 by (simp add: path_exists_def)
  have c2: "files st2 p1 = files st1 p1"
    using f2 b by simp
  have c3: "if path_exists st0 p1 then files st1 p1 = files st0 p1 else files st1 p1 = Some c1"
    using facts by blast
  have c4: "\<exists>key. pdf_key L (Some u1) = Inr key \<and> pdf_key L (Some u2) = Inr key \<and>
            pdf_seen_tab st1 src key = Some p1 \<and> pdf_seen_tab st2 src key = Some p1"
    using key key2 facts tab2 by blast
  show ?thesis
    by (intro conjI) (rule call2, rule c2, rule c3, rule c4)
qed

subsection \<open>The example stores\<close>

lemma norm_u0:
  "normalize_pdf_url ascii_lib (Some (ustr ''https://x/2023/report.pdf''))
     = Inr (Some (ustr ''https://x/2023/report.pdf''))"
  by (simp add: str_eval url_eval)

lemma norm_u1:
  "normalize_pdf_url ascii_lib (Some (ustr ''https://x/report.pdf?ts=123''))
     = Inr (Some (ustr ''https://x/report.pdf''))"
  by (simp add: str_eval url_eval)

lemma norm_u2:
  "normalize_pdf_url ascii_lib (Some (ustr ''https://x/report.pdf?ts=456''))
     = Inr (Some (ustr ''https://x/report.pdf''))"
  by (simp add: str_eval url_eval)

lemma norm_v1:
  "normalize_pdf_url ascii_lib (Some (ustr ''https://x/download?id=5&ts=1''))
     = Inr (Some (ustr ''https://x/download?id=5''))"
  by (simp add: str_eval url_eval)

lemma norm_v2:
  "normalize_pdf_url ascii_lib (Some (ustr ''https://x/download?id=5&ts=2''))
     = Inr (Some (ustr ''https://x/download?id=5''))"
  by (simp add: str_eval url_eval)

lemma key_u0:
  "pdf_key ascii_lib (Some (ustr ''https://x/2023/report.pdf''))
     = Inr (sha1_hexdigest (ustr ''https://x/2023/report.pdf''))"
  by (simp add: pdf_key_def norm_u0) (simp add: ustr_def utf8_encode_char_def)

lemma key_u1:
  "pdf_key ascii_lib (Some (ustr ''https://x/report.pdf?ts=123''))
     = Inr (sha1_hexdigest (ustr ''https://x/report.pdf''))"
  by (simp add: pdf_key_def norm_u1) (simp add: ustr_def utf8_encode_char_def)

lemma key_v1:
  "pdf_key ascii_lib (Some (ustr ''https://x/download?id=5&ts=1''))
     = Inr (sha1_hexdigest (ustr ''https://x/download?id=5''))"
  by (simp add: pdf_key_def norm_v1) (simp add: ustr_def utf8_encode_char_def)

lemma key_v2:
  "pdf_key ascii_lib (Some (ustr ''https://x/download?id=5&ts=2''))
     = Inr (sha1_hexdigest (ustr ''https://x/download?id=5''))"
  by (simp add: pdf_key_def norm_v2) (simp add: ustr_def utf8_encode_char_def)

lemma name_u0:
  "pdf_name_from_url ascii_lib (Some (ustr ''https://x/2023/report.pdf'')) = Some (ustr ''report.pdf'')"
  by (simp add: pdf_name_from_url_def urlsplit_def Let_def scheme_chars_def splitnetloc_def
      netloc_delim_def netloc_ok_def checknetloc_def unquote_def suffix_def name_eval str_eval)

lemma name_u1:
  "pdf_name_from_url ascii_lib (Some (ustr ''https://x/report.pdf?ts=123'')) = Some (ustr ''report.pdf'')"
  by (simp add: pdf_name_from_url_def urlsplit_def Let_def scheme_chars_def splitnetloc_def
      netloc_delim_def netloc_ok_def checknetloc_def unquote_def suffix_def name_eval str_eval)

lemma name_v1:
  "pdf_name_from_url ascii_lib (Some (ustr ''https://x/download?id=5&ts=1'')) = None"
  by (simp add: pdf_name_from_url_def urlsplit_def Let_def scheme_chars_def splitnetloc_def
      netloc_delim_def netloc_ok_def checknetloc_def unquote_def suffix_def name_eval str_eval
      BAD_LAST_SEGMENTS_def)

lemma name_v2:
  "pdf_name_from_url ascii_lib (Some (ustr ''https://x/download?id=5&ts=2'')) = None"
  by (simp add: pdf_name_from_url_def urlsplit_def Let_def scheme_chars_def splitnetloc_def
      netloc_delim_def netloc_ok_def checknetloc_def unquote_def suffix_def name_eval str_eval
      BAD_LAST_SEGMENTS_def)

lemma fname_v1:
  "pdf_fname ascii_lib (ustr ''d1'') (ustr ''https://x/download?id=5&ts=1'') = ustr ''d1.pdf''"
  by (simp add: pdf_fname_def name_v1) (simp add: name_eval str_eval unquote_def)

lemma fname_v2:
  "pdf_fname ascii_lib (ustr ''d2'') (ustr ''https://x/download?id=5&ts=2'') = ustr ''d2.pdf''"
  by (simp add: pdf_fname_def name_v2) (simp add: name_eval str_eval unquote_def)

lemma path_acpr:
  "pdf_path st (ustr ''acpr'') f = root st @ ustr ''/acpr/pdf/'' @ f"
  by (simp add: pdf_path_def ustr_def)

lemma collision_store_eq:
  "collision_store =
     insert_pdf_seen
       (write_if_absent (empty_storage (ustr ''data'')) (ustr ''data/acpr/pdf/report.pdf'') [1])
       (ustr ''acpr'') (sha1_hexdigest (ustr ''https://x/2023/report.pdf''))
       (ustr ''data/acpr/pdf/report.pdf'')"
proof -
  have none: "usable_prev (empty_storage (ustr ''data''))
      (pdf_seen_tab (empty_storage (ustr ''data'')) (ustr ''acpr'')
         (sha1_hexdigest (ustr ''https://x/2023/report.pdf''))) = None"
    by (simp add: usable_prev_def empty_storage_def)
  have p: "pdf_path (empty_storage (ustr ''data'')) (ustr ''acpr'')
      (pdf_fname ascii_lib (ustr ''d0'') (ustr ''https://x/2023/report.pdf''))
      = ustr ''data/acpr/pdf/report.pdf''"
    by (simp add: pdf_fname_def name_u0 path_acpr) (simp add: empty_storage_def ustr_def)
  show ?thesis
    unfolding collision_store_def put_pdf_miss [OF key_u0 none] p by simp
qed

lemma collision_store_files:
  "files collision_store (ustr ''data/acpr/pdf/report.pdf'') = Some [1]"
  by (simp add: collision_store_eq files_insert_pdf_seen files_write_if_absent empty_storage_def)

lemma collision_store_root: "root collision_store = ustr ''data''"
  by (simp add: collision_store_eq insert_pdf_seen_def write_if_absent_def empty_storage_def
      path_exists_def)

lemma collision_store_usable:
  "usable_prev collision_store (pdf_seen_tab collision_store (ustr ''acpr'') k)
     = pdf_seen_tab collision_store (ustr ''acpr'') k"
proof (cases "pdf_seen_tab collision_store (ustr ''acpr'') k")
  case None
  then show ?thesis by (simp add: usable_prev_def)
next
  case (Some q)
  then have "q = ustr ''data/acpr/pdf/report.pdf''"
    by (simp add: collision_store_eq tab_insert_pdf_seen tab_write_if_absent empty_storage_def
        split: if_splits)
  then show ?thesis
    using Some collision_store_files by (simp add: usable_prev_def path_exists_def ustr_def)
qed

lemma collision_call1:
  "fst (put_pdf ascii_lib collision_store (ustr ''acpr'') (ustr ''d1'')
          (ustr ''https://x/report.pdf?ts=123'') [2]) = Inr (ustr ''data/acpr/pdf/report.pdf'') \<and>
   files (snd (put_pdf ascii_lib collision_store (ustr ''acpr'') (ustr ''d1'')
          (ustr ''https://x/report.pdf?ts=123'') [2])) (ustr ''data/acpr/pdf/report.pdf'') = Some [1]"
proof (cases "usable_prev collision_store (pdf_seen_tab collision_store (ustr ''acpr'')
         (sha1_hexdigest (ustr ''https://x/report.pdf'')))")
  case None
  have p: "pdf_path collision_store (ustr ''acpr'')
      (pdf_fname ascii_lib (ustr ''d1'') (ustr ''https://x/report.pdf?ts=123''))
      = ustr ''data/acpr/pdf/report.pdf''"
    by (simp add: pdf_fname_def name_u1 path_acpr collision_store_root) (simp add: ustr_def)
  show ?thesis
    unfolding put_pdf_miss [OF key_u1 None] p
    by (simp add: files_insert_pdf_seen files_write_if_absent collision_store_files)
next
  case (Some q)
  then have q: "pdf_seen_tab collision_store (ustr ''acpr'')
         (sha1_hexdigest (ustr ''https://x/report.pdf'')) = Some q" "q \<noteq> []"
      "path_exists collision_store q"
    by (simp_all add: usable_prev_Some)
  have "q = ustr ''data/acpr/pdf/report.pdf''"
    using q(1)
    by (simp add: collision_store_eq tab_insert_pdf_seen tab_write_if_absent empty_storage_def
        split: if_splits)
  then show ?thesis
    using put_pdf_hit [OF key_u1 q, of "ustr ''d1''" "[2]"] collision_store_files by simp
qed

lemma dangling_store_tab:
  "pdf_seen_tab dangling_store (ustr ''acpr'') (sha1_hexdigest (ustr ''https://x/download?id=5''))
     = Some (ustr ''data/acpr/pdf/gone.pdf'')"
  by (simp add: dangling_store_def empty_storage_def)

lemma dangling_store_files: "files dangling_store = Map.empty"
  by (simp add: dangling_store_def empty_storage_def)

lemma dangling_store_root: "root dangling_store = ustr ''data''"
  by (simp add: dangling_store_def empty_storage_def)

lemma dangling_call1:
  "put_pdf ascii_lib dangling_store (ustr ''acpr'') (ustr ''d1'')
      (ustr ''https://x/download?id=5&ts=1'') [1]
     = (Inr (ustr ''data/acpr/pdf/d1.pdf''),
        dangling_store\<lparr>files := [ustr ''data/acpr/pdf/d1.pdf'' \<mapsto> [1]]\<rparr>)"
proof -
  have none: "usable_prev dangling_store
      (pdf_seen_tab dangling_store (ustr ''acpr'')
         (sha1_hexdigest (ustr ''https://x/download?id=5''))) = None"
    by (simp add: dangling_store_tab usable_prev_def path_exists_def dangling_store_files)
  have p: "pdf_path dangling_store (ustr ''acpr'')
      (pdf_fname ascii_lib (ustr ''d1'') (ustr ''https://x/download?id=5&ts=1''))
      = ustr ''data/acpr/pdf/d1.pdf''"
    by (simp add: fname_v1 path_acpr dangling_store_root) (simp add: ustr_def)
  show ?thesis
    unfolding put_pdf_miss [OF key_v1 none] p
    by (simp add: insert_pdf_seen_def tab_write_if_absent dangling_store_tab
        write_if_absent_def path_exists_def dangling_store_files)
qed

lemma dangling_call2:
  "put_pdf ascii_lib (dangling_store\<lparr>files := [ustr ''data/acpr/pdf/d1.pdf'' \<mapsto> [1]]\<rparr>)
      (ustr ''acpr'') (ustr ''d2'') (ustr ''https://x/download?id=5&ts=2'') [2]
     = (Inr (ustr ''data/acpr/pdf/d2.pdf''),
        dangling_store\<lparr>files := [ustr ''data/acpr/pdf/d1.pdf'' \<mapsto> [1],
                                  ustr ''data/acpr/pdf/d2.pdf'' \<mapsto> [2]]\<rparr>)"
proof -
  let ?st = "dangling_store\<lparr>files := [ustr ''data/acpr/pdf/d1.pdf'' \<mapsto> [1]]\<rparr>"
  have tab: "pdf_seen_tab ?st (ustr ''acpr'') (sha1_hexdigest (ustr ''https://x/download?id=5''))
     = Some (ustr ''data/acpr/pdf/gone.pdf'')"
    by (simp add: dangling_store_tab)
  have gone: "files ?st (ustr ''data/acpr/pdf/gone.pdf'') = None"
    by (simp add: ustr_def)
  have d2: "files ?st (ustr ''data/acpr/pdf/d2.pdf'') = None"
    by (simp add: ustr_def)
  have none: "usable_prev ?st
      (pdf_seen_tab ?st (ustr ''acpr'') (sha1_hexdigest (ustr ''https://x/download?id=5''))) = None"
    unfolding tab by (simp add: usable_prev_def path_exists_def ustr_def)
  have p: "pdf_path ?st (ustr ''acpr'')
      (pdf_fname ascii_lib (ustr ''d2'') (ustr ''https://x/download?id=5&ts=2''))
      = ustr ''data/acpr/pdf/d2.pdf''"
    by (simp add: fname_v2 path_acpr dangling_store_root) (simp add: ustr_def)
  show ?thesis
    unfolding put_pdf_miss [OF key_v2 none] p
    by (simp add: insert_pdf_seen_def tab_write_if_absent dangling_store_tab
        write_if_absent_def path_exists_def)
       (simp add: ustr_def)
qed

text \<open>
  Claim C4, as stated, fails in two ways. The same path: \<open>put_pdf\<close> takes the recorded
  path only when the file is there. In the store whose index names, for
  \<open>https://x/download?id=5\<close>, a file that is gone, the name of the file comes from
  the document id, and two calls for that URL with \<open>ts=1\<close> and \<open>ts=2\<close> from the
  documents \<open>d1\<close> and \<open>d2\<close> return two paths, while the index keeps the path it
  had. The payload: \<open>put_pdf\<close> writes only when the path does not exist. In the
  store that holds \<open>report.pdf\<close> for the URL \<open>https://x/2023/report.pdf\<close> with the
  byte 1, two calls for \<open>https://x/report.pdf\<close> with \<open>ts=123\<close> and \<open>ts=456\<close>
  return the same path, and the bytes there are the old ones, not the payload of the
  first of the two calls.
\<close>

theorem put_pdf_write_once_counterexample:
  "normalize_pdf_url ascii_lib (Some (ustr ''https://x/download?id=5&ts=1''))
     = normalize_pdf_url ascii_lib (Some (ustr ''https://x/download?id=5&ts=2'')) \<and>
   fst (put_pdf ascii_lib dangling_store (ustr ''acpr'') (ustr ''d1'')
          (ustr ''https://x/download?id=5&ts=1'') [1]) = Inr (ustr ''data/acpr/pdf/d1.pdf'') \<and>
   fst (put_pdf ascii_lib
          (snd (put_pdf ascii_lib dangling_store (ustr ''acpr'') (ustr ''d1'')
                  (ustr ''https://x/download?id=5&ts=1'') [1]))
          (ustr ''acpr'') (ustr ''d2'') (ustr ''https://x/download?id=5&ts=2'') [2])
     = Inr (ustr ''data/acpr/pdf/d2.pdf'') \<and>
   ustr ''data/acpr/pdf/d1.pdf'' \<noteq> ustr ''data/acpr/pdf/d2.pdf'' \<and>
   normalize_pdf_url ascii_lib (Some (ustr ''https://x/report.pdf?ts=123''))
     = normalize_pdf_url ascii_lib (Some (ustr ''https://x/report.pdf?ts=456'')) \<and>
   fst (put_pdf ascii_lib collision_store (ustr ''acpr'') (ustr ''d1'')
          (ustr ''https://x/report.pdf?ts=123'') [2]) = Inr (ustr ''data/acpr/pdf/report.pdf'') \<and>
   fst (put_pdf ascii_lib
          (snd (put_pdf ascii_lib collision_store (ustr ''acpr'') (ustr ''d1'')
                  (ustr ''https://x/report.pdf?ts=123'') [2]))
          (ustr ''acpr'') (ustr ''d2'') (ustr ''https://x/report.pdf?ts=456'') [3])
     = Inr (ustr ''data/acpr/pdf/report.pdf'') \<and>
   files (snd (put_pdf ascii_lib
          (snd (put_pdf ascii_lib collision_store (ustr ''acpr'') (ustr ''d1'')
                  (ustr ''https://x/report.pdf?ts=123'') [2]))
          (ustr ''acpr'') (ustr ''d2'') (ustr ''https://x/report.pdf?ts=456'') [3]))
       (ustr ''data/acpr/pdf/report.pdf'') = Some [1] \<and>
   Some [1::nat] \<noteq> Some [2]"
proof -
  let ?c1 = "put_pdf ascii_lib collision_store (ustr ''acpr'') (ustr ''d1'')
          (ustr ''https://x/report.pdf?ts=123'') [2]"
  let ?p = "ustr ''data/acpr/pdf/report.pdf''"
  have same_v: "normalize_pdf_url ascii_lib (Some (ustr ''https://x/download?id=5&ts=1''))
     = normalize_pdf_url ascii_lib (Some (ustr ''https://x/download?id=5&ts=2''))"
    by (simp add: norm_v1 norm_v2)
  have paths: "ustr ''data/acpr/pdf/d1.pdf'' \<noteq> ustr ''data/acpr/pdf/d2.pdf''"
    by (simp add: ustr_def)
  have same: "normalize_pdf_url ascii_lib (Some (ustr ''https://x/report.pdf?ts=456''))
     = normalize_pdf_url ascii_lib (Some (ustr ''https://x/report.pdf?ts=123''))"
    by (simp add: norm_u1 norm_u2)
  have call1: "?c1 = (Inr ?p, snd ?c1)"
    using collision_call1 by (metis prod.collapse)
  have f1: "files (snd ?c1) ?p = Some [1]"
    using collision_call1 by simp
  have prev: "pdf_seen_path ascii_lib collision_store (ustr ''acpr'')
      (Some (ustr ''https://x/report.pdf?ts=123''))
      = Inr (pdf_seen_tab collision_store (ustr ''acpr'')
               (sha1_hexdigest (ustr ''https://x/report.pdf'')))"
    by (simp add: pdf_seen_path_def key_u1)
  note w = put_pdf_two_calls [OF call1 prev collision_store_usable rtranclp.rtrancl_refl same,
      of "ustr ''d2''" "[3]"]
  have call2: "put_pdf ascii_lib (snd ?c1) (ustr ''acpr'') (ustr ''d2'')
      (ustr ''https://x/report.pdf?ts=456'') [3] = (Inr ?p, snd ?c1)"
    using w by blast
  have v1: "fst (put_pdf ascii_lib dangling_store (ustr ''acpr'') (ustr ''d1'')
          (ustr ''https://x/download?id=5&ts=1'') [1]) = Inr (ustr ''data/acpr/pdf/d1.pdf'')"
    by (simp only: dangling_call1 fst_conv)
  have v2: "fst (put_pdf ascii_lib
          (snd (put_pdf ascii_lib dangling_store (ustr ''acpr'') (ustr ''d1'')
                  (ustr ''https://x/download?id=5&ts=1'') [1]))
          (ustr ''acpr'') (ustr ''d2'') (ustr ''https://x/download?id=5&ts=2'') [2])
     = Inr (ustr ''data/acpr/pdf/d2.pdf'')"
    by (simp only: dangling_call1 dangling_call2 fst_conv snd_conv)
  have u1: "fst ?c1 = Inr ?p"
    using collision_call1 by blast
  have u2: "fst (put_pdf ascii_lib (snd ?c1) (ustr ''acpr'') (ustr ''d2'')
      (ustr ''https://x/report.pdf?ts=456'') [3]) = Inr ?p"
    by (simp only: call2 fst_conv)
  have u3: "files (snd (put_pdf ascii_lib (snd ?c1) (ustr ''acpr'') (ustr ''d2'')
      (ustr ''https://x/report.pdf?ts=456'') [3])) ?p = Some [1]"
    by (simp only: call2 snd_conv f1)
  have ne: "Some [1::nat] \<noteq> Some [2]"
    by simp
  show ?thesis
    by (intro conjI) (rule same_v, rule v1, rule v2, rule paths, rule same [symmetric],
        rule u1, rule u2, rule u3, rule ne)
qed

text \<open>
  Claim C4, amended. In every store, a call of \<open>put_pdf\<close> changes no entry that the
  attachment index has (the insert is insert-if-absent: first writer wins) and rewrites
  no file that exists, whatever its payload; and when the index has a path for the key
  of the URL and the file at that path exists, the call returns that path and changes
  nothing. Two calls: let the path that the index has for the URL before the first call,
  if it has one, exist; let the first call return \<open>p1\<close>, and let any operations of the
  store follow. Then a call of \<open>put_pdf\<close> for the same source with a URL that
  canonicalises as the first one did returns \<open>p1\<close> and changes nothing; the bytes at
  \<open>p1\<close> are those the first call left there, which are its payload when the path did not
  exist before it and the bytes already there when it did; and the index has the entry
  from the key to \<open>p1\<close> after both calls.
\<close>

theorem put_pdf_write_once:
  "(\<forall>s k p. pdf_seen_tab st s k = Some p \<longrightarrow>
       pdf_seen_tab (snd (put_pdf L st src d u c)) s k = Some p) \<and>
   (\<forall>q b. files st q = Some b \<longrightarrow> files (snd (put_pdf L st src d u c)) q = Some b) \<and>
   (\<forall>key p. pdf_key L (Some u) = Inr key \<and> pdf_seen_tab st src key = Some p \<and> p \<noteq> [] \<and>
       path_exists st p \<longrightarrow> put_pdf L st src d u c = (Inr p, st)) \<and>
   (put_pdf L st0 src d1 u1 c1 = (Inr p1, st1) \<and>
    pdf_seen_path L st0 src (Some u1) = Inr prev \<and> usable_prev st0 prev = prev \<and>
    (store_step L)\<^sup>*\<^sup>* st1 st2 \<and>
    normalize_pdf_url L (Some u2) = normalize_pdf_url L (Some u1) \<longrightarrow>
      put_pdf L st2 src d2 u2 c2 = (Inr p1, st2) \<and>
      files st2 p1 = files st1 p1 \<and>
      (if path_exists st0 p1 then files st1 p1 = files st0 p1 else files st1 p1 = Some c1) \<and>
      (\<exists>key. pdf_key L (Some u1) = Inr key \<and> pdf_key L (Some u2) = Inr key \<and>
         pdf_seen_tab st1 src key = Some p1 \<and> pdf_seen_tab st2 src key = Some p1))"
proof -
  have g: "grows st (snd (put_pdf L st src d u c))"
    by (rule grows_put_pdf)
  have a: "\<forall>s k p. pdf_seen_tab st s k = Some p \<longrightarrow>
       pdf_seen_tab (snd (put_pdf L st src d u c)) s k = Some p"
    using g by (simp add: grows_def)
  have b: "\<forall>q b. files st q = Some b \<longrightarrow> files (snd (put_pdf L st src d u c)) q = Some b"
    using g by (simp add: grows_def)
  have h: "\<forall>key p. pdf_key L (Some u) = Inr key \<and> pdf_seen_tab st src key = Some p \<and> p \<noteq> [] \<and>
       path_exists st p \<longrightarrow> put_pdf L st src d u c = (Inr p, st)"
    using put_pdf_hit by blast
  have t: "put_pdf L st0 src d1 u1 c1 = (Inr p1, st1) \<and>
    pdf_seen_path L st0 src (Some u1) = Inr prev \<and> usable_prev st0 prev = prev \<and>
    (store_step L)\<^sup>*\<^sup>* st1 st2 \<and>
    normalize_pdf_url L (Some u2) = normalize_pdf_url L (Some u1) \<longrightarrow>
      put_pdf L st2 src d2 u2 c2 = (Inr p1, st2) \<and>
      files st2 p1 = files st1 p1 \<and>
      (if path_exists st0 p1 then files st1 p1 = files st0 p1 else files st1 p1 = Some c1) \<and>
      (\<exists>key. pdf_key L (Some u1) = Inr key \<and> pdf_key L (Some u2) = Inr key \<and>
         pdf_seen_tab st1 src key = Some p1 \<and> pdf_seen_tab st2 src key = Some p1)"
    using put_pdf_two_calls by blast
  show ?thesis
    by (intro conjI) (rule a, rule b, rule h, rule t)
qed

theorem put_pdf_write_once_witness:
  "pdf_seen_tab dangling_store (ustr ''acpr'') (sha1_hexdigest (ustr ''https://x/download?id=5''))
     = Some (ustr ''data/acpr/pdf/gone.pdf'') \<and>
   pdf_seen_tab
     (snd (put_pdf ascii_lib dangling_store (ustr ''acpr'') (ustr ''d1'')
             (ustr ''https://x/download?id=5&ts=1'') [1]))
     (ustr ''acpr'') (sha1_hexdigest (ustr ''https://x/download?id=5''))
     = Some (ustr ''data/acpr/pdf/gone.pdf'') \<and>
   files collision_store (ustr ''data/acpr/pdf/report.pdf'') = Some [1] \<and>
   files (snd (put_pdf ascii_lib collision_store (ustr ''acpr'') (ustr ''d1'')
                 (ustr ''https://x/report.pdf?ts=123'') [2]))
     (ustr ''data/acpr/pdf/report.pdf'') = Some [1] \<and>
   fst (put_pdf ascii_lib (empty_storage (ustr ''data'')) (ustr ''acpr'') (ustr ''d1'')
          (ustr ''https://x/report.pdf?ts=123'') [1, 2, 3]) = Inr (ustr ''data/acpr/pdf/report.pdf'') \<and>
   pdf_seen_path ascii_lib (empty_storage (ustr ''data'')) (ustr ''acpr'')
     (Some (ustr ''https://x/report.pdf?ts=123'')) = Inr None \<and>
   usable_prev (empty_storage (ustr ''data'')) None = None \<and>
   normalize_pdf_url ascii_lib (Some (ustr ''https://x/report.pdf?ts=456''))
     = normalize_pdf_url ascii_lib (Some (ustr ''https://x/report.pdf?ts=123'')) \<and>
   put_pdf ascii_lib
       (snd (put_pdf ascii_lib (empty_storage (ustr ''data'')) (ustr ''acpr'') (ustr ''d1'')
          (ustr ''https://x/report.pdf?ts=123'') [1, 2, 3]))
       (ustr ''acpr'') (ustr ''d2'') (ustr ''https://x/report.pdf?ts=456'') [9]
     = (Inr (ustr ''data/acpr/pdf/report.pdf''),
        snd (put_pdf ascii_lib (empty_storage (ustr ''data'')) (ustr ''acpr'') (ustr ''d1'')
          (ustr ''https://x/report.pdf?ts=123'') [1, 2, 3])) \<and>
   files (snd (put_pdf ascii_lib (empty_storage (ustr ''data'')) (ustr ''acpr'') (ustr ''d1'')
          (ustr ''https://x/report.pdf?ts=123'') [1, 2, 3])) (ustr ''data/acpr/pdf/report.pdf'')
     = Some [1, 2, 3]"
proof -
  let ?E = "empty_storage (ustr ''data'')"
  let ?c1 = "put_pdf ascii_lib ?E (ustr ''acpr'') (ustr ''d1'')
          (ustr ''https://x/report.pdf?ts=123'') [1, 2, 3]"
  let ?p = "ustr ''data/acpr/pdf/report.pdf''"
  let ?K = "sha1_hexdigest (ustr ''https://x/download?id=5'')"
  have a1: "pdf_seen_tab dangling_store (ustr ''acpr'') ?K = Some (ustr ''data/acpr/pdf/gone.pdf'')"
    by (rule dangling_store_tab)
  have a2: "pdf_seen_tab
     (snd (put_pdf ascii_lib dangling_store (ustr ''acpr'') (ustr ''d1'')
             (ustr ''https://x/download?id=5&ts=1'') [1]))
     (ustr ''acpr'') ?K = Some (ustr ''data/acpr/pdf/gone.pdf'')"
    using put_pdf_write_once [where st = dangling_store and L = ascii_lib
        and src = "ustr ''acpr''" and d = "ustr ''d1''"
        and u = "ustr ''https://x/download?id=5&ts=1''" and c = "[1]"] a1
    by blast
  have b1: "files collision_store ?p = Some [1]"
    by (rule collision_store_files)
  have b2: "files (snd (put_pdf ascii_lib collision_store (ustr ''acpr'') (ustr ''d1'')
                 (ustr ''https://x/report.pdf?ts=123'') [2])) ?p = Some [1]"
    using put_pdf_write_once [where st = collision_store and L = ascii_lib
        and src = "ustr ''acpr''" and d = "ustr ''d1''"
        and u = "ustr ''https://x/report.pdf?ts=123''" and c = "[2]"] b1
    by blast
  have same: "normalize_pdf_url ascii_lib (Some (ustr ''https://x/report.pdf?ts=456''))
     = normalize_pdf_url ascii_lib (Some (ustr ''https://x/report.pdf?ts=123''))"
    by (simp add: norm_u1 norm_u2)
  have none: "usable_prev ?E (pdf_seen_tab ?E (ustr ''acpr'')
         (sha1_hexdigest (ustr ''https://x/report.pdf''))) = None"
    by (simp add: usable_prev_def empty_storage_def)
  have p: "pdf_path ?E (ustr ''acpr'')
      (pdf_fname ascii_lib (ustr ''d1'') (ustr ''https://x/report.pdf?ts=123'')) = ?p"
    by (simp add: pdf_fname_def name_u1 path_acpr) (simp add: empty_storage_def ustr_def)
  have fst1: "fst ?c1 = Inr ?p"
    unfolding put_pdf_miss [OF key_u1 none] p by simp
  have absent: "\<not> path_exists ?E ?p"
    by (simp add: path_exists_def empty_storage_def)
  have call1: "?c1 = (Inr ?p, snd ?c1)"
    using fst1 by (metis prod.collapse)
  have prev: "pdf_seen_path ascii_lib ?E (ustr ''acpr'')
      (Some (ustr ''https://x/report.pdf?ts=123'')) = Inr None"
    by (simp add: pdf_seen_path_def key_u1 empty_storage_def)
  have usable: "usable_prev ?E None = None"
    by (simp add: usable_prev_def)
  have later: "(store_step ascii_lib)\<^sup>*\<^sup>* (snd ?c1) (snd ?c1)"
    by (rule rtranclp.rtrancl_refl)
  have two: "put_pdf ascii_lib (snd ?c1) (ustr ''acpr'') (ustr ''d2'')
        (ustr ''https://x/report.pdf?ts=456'') [9] = (Inr ?p, snd ?c1) \<and>
      (if path_exists ?E ?p then files (snd ?c1) ?p = files ?E ?p
       else files (snd ?c1) ?p = Some [1, 2, 3])"
    using put_pdf_write_once [where L = ascii_lib and src = "ustr ''acpr''" and st0 = ?E
        and ?d1.0 = "ustr ''d1''" and ?u1.0 = "ustr ''https://x/report.pdf?ts=123''"
        and ?c1.0 = "[1, 2, 3]" and ?p1.0 = ?p and ?st1.0 = "snd ?c1" and prev = None
        and ?st2.0 = "snd ?c1" and ?u2.0 = "ustr ''https://x/report.pdf?ts=456''"
        and ?d2.0 = "ustr ''d2''" and ?c2.0 = "[9]"]
      call1 prev usable later same
    by blast
  have c1: "put_pdf ascii_lib (snd ?c1) (ustr ''acpr'') (ustr ''d2'')
        (ustr ''https://x/report.pdf?ts=456'') [9] = (Inr ?p, snd ?c1)"
    using two by blast
  have c2: "files (snd ?c1) ?p = Some [1, 2, 3]"
    using two absent by simp
  show ?thesis
    by (intro conjI) (rule a1, rule a2, rule b1, rule b2, rule fst1, rule prev, rule usable,
        rule same, rule c1, rule c2)
qed

end
